theory Spec2Isabelle
  imports Main "HOL-Library.Word"
begin

section \<open>JavaScript values as the handlers see them\<close>

text \<open>
  A JavaScript string is a sequence of UTF-16 code units. ASCII literals of the source are
  written with \<open>ustr\<close>; other code units are given by their number.
\<close>

type_synonym ustring = "16 word list"

definition ustr :: "string \<Rightarrow> ustring" where
  "ustr s = map (\<lambda>c. of_nat (of_char c)) s"

text \<open>
  The values that \<open>JSON.parse\<close> produces, and \<open>undefined\<close> for a property that is
  missing. Numbers are carried as integers: the handlers never compute with a number, they
  only test it for truthiness and print it into a URL or a message. The model prints an
  integer in plain decimal, as JavaScript does for integers of magnitude below
  \<open>10\<^sup>2\<^sup>1\<close>; larger numbers, which JavaScript prints in exponent form, and
  fractional numbers are outside the model. An object is the association list of its own
  properties; the first entry of a key is the property.
\<close>

datatype js =
    JUndefined
  | JNull
  | JBool bool
  | JNum int
  | JStr ustring
  | JArr "js list"
  | JObj "(ustring \<times> js) list"

text \<open>
  What the handlers can throw: \<open>Error s\<close> is \<open>throw new Error(s)\<close> of the source; the
  other three are raised by the runtime (a property read on \<open>undefined\<close> or \<open>null\<close>, a
  call of something that is no function, a rejected \<open>fetch\<close>, a rejected
  \<open>response.json()\<close>), and the runtime chooses their message text.
\<close>

datatype exn = Error ustring | TypeError | FetchError | JsonError

definition andThen :: "exn + 'a \<Rightarrow> ('a \<Rightarrow> exn + 'b) \<Rightarrow> exn + 'b" where
  "andThen m f = (case m of Inl e \<Rightarrow> Inl e | Inr x \<Rightarrow> f x)"

fun mapM :: "('a \<Rightarrow> exn + 'b) \<Rightarrow> 'a list \<Rightarrow> exn + 'b list" where
  "mapM f [] = Inr []"
| "mapM f (x # xs) =
     (case f x of Inl e \<Rightarrow> Inl e
      | Inr y \<Rightarrow> (case mapM f xs of Inl e \<Rightarrow> Inl e | Inr ys \<Rightarrow> Inr (y # ys)))"

text \<open>\<open>!v\<close> is \<open>\<not> truthy v\<close>.\<close>

fun truthy :: "js \<Rightarrow> bool" where
  "truthy JUndefined = False"
| "truthy JNull = False"
| "truthy (JBool b) = b"
| "truthy (JNum n) = (n \<noteq> 0)"
| "truthy (JStr s) = (s \<noteq> [])"
| "truthy (JArr xs) = True"
| "truthy (JObj kvs) = True"

text \<open>\<open>typeof v === 'string'\<close>.\<close>

fun is_string :: "js \<Rightarrow> bool" where
  "is_string (JStr s) = True"
| "is_string v = False"

text \<open>\<open>a || b\<close>.\<close>

definition js_or :: "js \<Rightarrow> js \<Rightarrow> js" where
  "js_or a b = (if truthy a then a else b)"

definition own :: "(ustring \<times> js) list \<Rightarrow> ustring \<Rightarrow> js" where
  "own kvs k = (case map_of kvs k of None \<Rightarrow> JUndefined | Some v \<Rightarrow> v)"

text \<open>
  \<open>v.k\<close> for the property names the handlers read (\<open>message\<close>, \<open>error\<close>, \<open>id\<close>,
  \<open>status\<close>, ...): none of them is \<open>length\<close>, an index or a member of a built-in
  prototype, so only an object can have one.
\<close>

fun get_prop :: "js \<Rightarrow> ustring \<Rightarrow> exn + js" where
  "get_prop JUndefined k = Inl TypeError"
| "get_prop JNull k = Inl TypeError"
| "get_prop (JObj kvs) k = Inr (own kvs k)"
| "get_prop v k = Inr JUndefined"

text \<open>\<open>v?.k\<close>, for the same property names.\<close>

fun opt_prop :: "js \<Rightarrow> ustring \<Rightarrow> js" where
  "opt_prop (JObj kvs) k = own kvs k"
| "opt_prop v k = JUndefined"

text \<open>\<open>v[0]\<close>.\<close>

fun elem0 :: "js \<Rightarrow> exn + js" where
  "elem0 JUndefined = Inl TypeError"
| "elem0 JNull = Inl TypeError"
| "elem0 (JArr xs) = Inr (case xs of [] \<Rightarrow> JUndefined | x # _ \<Rightarrow> x)"
| "elem0 (JStr s) = Inr (case s of [] \<Rightarrow> JUndefined | c # _ \<Rightarrow> JStr [c])"
| "elem0 (JObj kvs) = Inr (own kvs (ustr ''0''))"
| "elem0 v = Inr JUndefined"

text \<open>
  The receiver of an array method (\<open>.map\<close>, \<open>.find\<close>, \<open>.filter\<close>): on anything but an
  array the method is missing or no function, and the call raises.
\<close>

fun as_array :: "js \<Rightarrow> exn + js list" where
  "as_array (JArr xs) = Inr xs"
| "as_array v = Inl TypeError"

text \<open>
  Decimal digits of an integer, as \<open>String(n)\<close> prints an integer of magnitude below
  \<open>10\<^sup>2\<^sup>1\<close>.
\<close>

function digits :: "nat \<Rightarrow> ustring" where
  "digits n = (if n < 10 then [48 + of_nat n] else digits (n div 10) @ [48 + of_nat (n mod 10)])"
  by pat_completeness auto
termination
  by (relation "measure id") auto

declare digits.simps [simp del]

definition show_int :: "int \<Rightarrow> ustring" where
  "show_int i = (if i < 0 then ustr ''-'' @ digits (nat (- i)) else digits (nat i))"

text \<open>
  \<open>String(v)\<close>, which a template literal applies to each \<open>${...}\<close>, and
  \<open>xs.join(sep)\<close>. An array prints as its elements joined by commas; \<open>join\<close> prints
  \<open>undefined\<close> and \<open>null\<close> as the empty string. An object prints as
  \<open>[object Object]\<close> unless it has a property \<open>toString\<close> of its own, which in parsed
  JSON is never a function: then the conversion raises.
\<close>

fun to_string :: "js \<Rightarrow> exn + ustring"
  and js_join :: "ustring \<Rightarrow> js list \<Rightarrow> exn + ustring" where
  "to_string JUndefined = Inr (ustr ''undefined'')"
| "to_string JNull = Inr (ustr ''null'')"
| "to_string (JBool b) = Inr (if b then ustr ''true'' else ustr ''false'')"
| "to_string (JNum n) = Inr (show_int n)"
| "to_string (JStr s) = Inr s"
| "to_string (JArr xs) = js_join (ustr '','') xs"
| "to_string (JObj kvs) =
     (if map_of kvs (ustr ''toString'') = None then Inr (ustr ''[object Object]'')
      else Inl TypeError)"
| "js_join sep [] = Inr []"
| "js_join sep (x # xs) =
     (case (if x = JUndefined \<or> x = JNull then Inr [] else to_string x) of
        Inl e \<Rightarrow> Inl e
      | Inr s \<Rightarrow>
          (if xs = [] then Inr s
           else (case js_join sep xs of Inl e \<Rightarrow> Inl e | Inr t \<Rightarrow> Inr (s @ sep @ t))))"

section \<open>The upstream service and the handler's effects\<close>

text \<open>
  An upstream response: its status code and its body as \<open>response.json()\<close> delivers it
  (\<open>None\<close> when the body is no JSON and the promise rejects). \<open>response.ok\<close> is a status
  in the range 200 to 299.
\<close>

record http_response =
  status :: nat
  json :: "js option"

definition ok :: "http_response \<Rightarrow> bool" where
  "ok r = (200 \<le> status r \<and> status r \<le> 299)"

datatype fetch_result = Rejected | Resp http_response

text \<open>
  The upstream calls of the two servers, with what the handler puts into them: the message
  list of the completion call; the thread and run identifiers as the URL template prints
  them; the message text; the assistant identifier. Headers, model name and sampling
  parameters come from the configuration alone and are left out.
\<close>

datatype request =
    ChatCompletion "js list"
  | CreateThread
  | AddMessage ustring js
  | CreateRun ustring ustring
  | GetRun ustring ustring
  | ListMessages ustring

datatype event = Fetch request fetch_result | Sleep nat

text \<open>
  The world of one request: what the upstream answers to the n-th call of the handler, and
  the trace of what the handler has done so far, oldest first. Console output is left out.
\<close>

record world =
  upstream :: "nat \<Rightarrow> fetch_result"
  trace :: "event list"

fun is_fetch :: "event \<Rightarrow> bool" where
  "is_fetch (Fetch rq r) = True"
| "is_fetch (Sleep ms) = False"

definition fetches :: "event list \<Rightarrow> nat" where
  "fetches evs = length (filter is_fetch evs)"

definition fetch :: "request \<Rightarrow> world \<Rightarrow> fetch_result \<times> world" where
  "fetch rq w =
     (let r = upstream w (fetches (trace w))
      in (r, w\<lparr>trace := trace w @ [Fetch rq r]\<rparr>))"

definition sleep :: "nat \<Rightarrow> world \<Rightarrow> world" where
  "sleep ms w = w\<lparr>trace := trace w @ [Sleep ms]\<rparr>"

text \<open>
  The HTTP response of the gateway: status code and JSON body. The bodies the two servers
  send have five shapes; \<open>Caught e\<close> is the body of the catch-all boundary,
  \<open>{error: 'Internal server error', message: e.message}\<close>.
\<close>

datatype reply_body =
    ErrorOnly ustring
  | ErrorDetails ustring js
  | Caught exn
  | ChatA js js js
  | ChatB ustring js js

datatype reply = Reply (code: nat) (payload: reply_body)

text \<open>The \<open>details\<close> field of a body, when it has one.\<close>

fun details :: "reply_body \<Rightarrow> js option" where
  "details (ErrorDetails e d) = Some d"
| "details b = None"

text \<open>The \<open>threadId\<close> field of a body, when it has one.\<close>

fun threadId_of :: "reply_body \<Rightarrow> js option" where
  "threadId_of (ChatB t i r) = Some i"
| "threadId_of b = None"

section \<open>Variant A: \<open>src/server.js\<close>\<close>

definition system_prompt :: ustring where
  "system_prompt =
     ustr ''Eres un asistente '' @ [0xFA] @
     ustr ''til y amigable. Respondes de manera clara y concisa.''"

definition system_entry :: js where
  "system_entry = JObj [(ustr ''role'', JStr (ustr ''system'')), (ustr ''content'', JStr system_prompt)]"

text \<open>The arrow function of \<open>.map\<close>: \<open>msg => ({role: msg.role, content: msg.content})\<close>.\<close>

definition copy_entry :: "js \<Rightarrow> exn + js" where
  "copy_entry msg =
     andThen (get_prop msg (ustr ''role'')) (\<lambda>r.
     andThen (get_prop msg (ustr ''content'')) (\<lambda>c.
     Inr (JObj [(ustr ''role'', r), (ustr ''content'', c)])))"

text \<open>Lines 40 to 56: the message list.\<close>

definition build_messages :: "js \<Rightarrow> js \<Rightarrow> exn + js list" where
  "build_messages message conversationHistory =
     andThen (as_array (js_or conversationHistory (JArr []))) (\<lambda>h.
     andThen (mapM copy_entry h) (\<lambda>copied.
     Inr (system_entry # copied @
          [JObj [(ustr ''role'', JStr (ustr ''user'')), (ustr ''content'', message)]])))"

text \<open>Line 87: \<open>data.choices[0].message.content\<close>.\<close>

definition first_choice :: "js \<Rightarrow> exn + js" where
  "first_choice data =
     andThen (get_prop data (ustr ''choices'')) (\<lambda>choices.
     andThen (elem0 choices) (\<lambda>choice.
     andThen (get_prop choice (ustr ''message'')) (\<lambda>m.
     get_prop m (ustr ''content''))))"

text \<open>Lines 76 to 94: what the handler does with the upstream response.\<close>

definition completion_reply :: "http_response \<Rightarrow> exn + reply" where
  "completion_reply response =
     (if \<not> ok response then
        (case json response of
           None \<Rightarrow> Inl JsonError
         | Some errorData \<Rightarrow>
             andThen (get_prop errorData (ustr ''error'')) (\<lambda>er.
             Inr (Reply (status response)
                    (ErrorDetails (ustr ''Error from OpenAI API'')
                       (js_or (opt_prop er (ustr ''message'')) (JStr (ustr ''Unknown error'')))))))
      else
        (case json response of
           None \<Rightarrow> Inl JsonError
         | Some data \<Rightarrow>
             andThen (first_choice data) (\<lambda>botResponse.
             andThen (get_prop data (ustr ''model'')) (\<lambda>model.
             andThen (get_prop data (ustr ''usage'')) (\<lambda>usage.
             Inr (Reply 200 (ChatA botResponse model usage)))))))"

text \<open>The body of the \<open>try\<close> block, lines 30 to 94.\<close>

definition chat_a_try :: "js \<Rightarrow> world \<Rightarrow> (exn + reply) \<times> world" where
  "chat_a_try body w =
     (case andThen (get_prop body (ustr ''message'')) (\<lambda>message.
           andThen (get_prop body (ustr ''conversationHistory'')) (\<lambda>h. Inr (message, h))) of
        Inl e \<Rightarrow> (Inl e, w)
      | Inr (message, conversationHistory) \<Rightarrow>
          if \<not> truthy message \<or> \<not> is_string message then
            (Inr (Reply 400 (ErrorOnly (ustr ''Message is required and must be a string''))), w)
          else
            (case build_messages message conversationHistory of
               Inl e \<Rightarrow> (Inl e, w)
             | Inr messages \<Rightarrow>
                 (case fetch (ChatCompletion messages) w of
                    (Rejected, w1) \<Rightarrow> (Inl FetchError, w1)
                  | (Resp response, w1) \<Rightarrow> (completion_reply response, w1))))"

text \<open>The handler of \<open>POST /api/chat\<close> with its catch-all boundary, lines 28 to 103.\<close>

definition chat_a :: "js \<Rightarrow> world \<Rightarrow> reply \<times> world" where
  "chat_a body w =
     (case chat_a_try body w of
        (Inl e, w1) \<Rightarrow> (Reply 500 (Caught e), w1)
      | (Inr r, w1) \<Rightarrow> (r, w1))"

section \<open>Variant B: the assistant server (\<open>src/unnamed/part_000\<close>)\<close>

text \<open>
  \<open>process.env.OPENAI_ASSISTANT_ID\<close>: a string, or \<open>None\<close> when the variable is not
  set.
\<close>

record config =
  assistant_id :: "ustring option"

definition thenS ::
  "(exn + 'a) \<times> world \<Rightarrow> ('a \<Rightarrow> world \<Rightarrow> (exn + 'b) \<times> world) \<Rightarrow> (exn + 'b) \<times> world" where
  "thenS m f = (case m of (Inl e, w) \<Rightarrow> (Inl e, w) | (Inr x, w) \<Rightarrow> f x w)"

text \<open>Step 1, lines 53 to 68: create a thread or use the given one.\<close>

definition resolve_thread :: "js \<Rightarrow> world \<Rightarrow> (exn + js) \<times> world" where
  "resolve_thread threadId w =
     (if \<not> truthy threadId then
        (case fetch CreateThread w of
           (Rejected, w1) \<Rightarrow> (Inl FetchError, w1)
         | (Resp threadResponse, w1) \<Rightarrow>
             if \<not> ok threadResponse then (Inl (Error (ustr ''Failed to create thread'')), w1)
             else
               (case json threadResponse of
                  None \<Rightarrow> (Inl JsonError, w1)
                | Some threadData \<Rightarrow> (get_prop threadData (ustr ''id''), w1)))
      else (Inr threadId, w))"

text \<open>Step 2, lines 71 to 84: add the user's message to the thread.\<close>

definition add_message :: "js \<Rightarrow> js \<Rightarrow> world \<Rightarrow> (exn + unit) \<times> world" where
  "add_message currentThreadId message w =
     (case to_string currentThreadId of
        Inl e \<Rightarrow> (Inl e, w)
      | Inr tid \<Rightarrow>
          (case fetch (AddMessage tid message) w of
             (Rejected, w1) \<Rightarrow> (Inl FetchError, w1)
           | (Resp messageResponse, w1) \<Rightarrow>
               if \<not> ok messageResponse then
                 (case json messageResponse of
                    None \<Rightarrow> (Inl JsonError, w1)
                  | Some errorData \<Rightarrow> (Inl (Error (ustr ''Failed to add message to thread'')), w1))
               else (Inr (), w1)))"

text \<open>Step 3, lines 87 to 102: start the run; the result is \<open>runId\<close>.\<close>

definition start_run :: "ustring \<Rightarrow> js \<Rightarrow> world \<Rightarrow> (exn + js) \<times> world" where
  "start_run aid currentThreadId w =
     (case to_string currentThreadId of
        Inl e \<Rightarrow> (Inl e, w)
      | Inr tid \<Rightarrow>
          (case fetch (CreateRun tid aid) w of
             (Rejected, w1) \<Rightarrow> (Inl FetchError, w1)
           | (Resp runResponse, w1) \<Rightarrow>
               if \<not> ok runResponse then
                 (case json runResponse of
                    None \<Rightarrow> (Inl JsonError, w1)
                  | Some errorData \<Rightarrow> (Inl (Error (ustr ''Failed to run assistant'')), w1))
               else
                 (case json runResponse of
                    None \<Rightarrow> (Inl JsonError, w1)
                  | Some runData \<Rightarrow> (get_prop runData (ustr ''id''), w1))))"

text \<open>
  Line 127: what the loop throws on a failed, cancelled or expired run,
  \<open>new Error(`Run ${runStatus}: ${statusData.last_error?.message || 'Unknown error'}`)\<close>,
  or what the evaluation of the template raises.
\<close>

definition run_failure :: "js \<Rightarrow> js \<Rightarrow> exn" where
  "run_failure runStatus statusData =
     (case andThen (to_string runStatus) (\<lambda>s.
           andThen (get_prop statusData (ustr ''last_error'')) (\<lambda>le.
           andThen (to_string (js_or (opt_prop le (ustr ''message'')) (JStr (ustr ''Unknown error'')))) (\<lambda>m.
           Inr (ustr ''Run '' @ s @ ustr '': '' @ m)))) of
        Inl e \<Rightarrow> e
      | Inr text \<Rightarrow> Error text)"

definition maxAttempts :: nat where
  "maxAttempts = 60"

text \<open>
  Step 4, lines 109 to 129: the \<open>while\<close> loop, from the values \<open>runStatus\<close> and
  \<open>attempts\<close> have at the loop head. It returns the \<open>runStatus\<close> the loop ends with.
  The log line of line 124 prints nothing the handler can observe, but its template
  converts the new status to a string, which can raise.
\<close>

function poll :: "js \<Rightarrow> js \<Rightarrow> js \<Rightarrow> nat \<Rightarrow> world \<Rightarrow> (exn + js) \<times> world" where
  "poll currentThreadId runId runStatus attempts w =
     (if runStatus \<noteq> JStr (ustr ''completed'') \<and> runStatus \<noteq> JStr (ustr ''failed'')
         \<and> attempts < maxAttempts then
        (case andThen (to_string currentThreadId) (\<lambda>tid.
              andThen (to_string runId) (\<lambda>rid. Inr (GetRun tid rid))) of
           Inl e \<Rightarrow> (Inl e, sleep 1000 w)
         | Inr rq \<Rightarrow>
             (case fetch rq (sleep 1000 w) of
                (Rejected, w2) \<Rightarrow> (Inl FetchError, w2)
              | (Resp statusResponse, w2) \<Rightarrow>
                  if \<not> ok statusResponse then (Inl (Error (ustr ''Failed to get run status'')), w2)
                  else
                    (case json statusResponse of
                       None \<Rightarrow> (Inl JsonError, w2)
                     | Some statusData \<Rightarrow>
                         (case get_prop statusData (ustr ''status'') of
                            Inl e \<Rightarrow> (Inl e, w2)
                          | Inr st \<Rightarrow>
                              (case to_string st of
                                 Inl e \<Rightarrow> (Inl e, w2)
                               | Inr logged \<Rightarrow>
                                   if st = JStr (ustr ''failed'') \<or> st = JStr (ustr ''cancelled'')
                                      \<or> st = JStr (ustr ''expired'')
                                   then (Inl (run_failure st statusData), w2)
                                   else poll currentThreadId runId st (Suc attempts) w2)))))
      else (Inr runStatus, w))"
  by pat_completeness auto
termination
  by (relation "measure (\<lambda>(currentThreadId, runId, runStatus, attempts, w). maxAttempts - attempts)")
    auto

declare poll.simps [simp del]

text \<open>Lines 105 to 133: the loop from \<open>'queued'\<close> and 0, and the check after it.\<close>

definition wait_for_run :: "js \<Rightarrow> js \<Rightarrow> world \<Rightarrow> (exn + unit) \<times> world" where
  "wait_for_run currentThreadId runId w =
     (case poll currentThreadId runId (JStr (ustr ''queued'')) 0 w of
        (Inl e, w1) \<Rightarrow> (Inl e, w1)
      | (Inr runStatus, w1) \<Rightarrow>
          if runStatus \<noteq> JStr (ustr ''completed'')
          then (Inl (Error (ustr ''Assistant response timeout'')), w1)
          else (Inr (), w1))"

text \<open>Line 147: \<open>.find(msg => msg.role === 'assistant')\<close>.\<close>

fun find_assistant :: "js list \<Rightarrow> exn + js" where
  "find_assistant [] = Inr JUndefined"
| "find_assistant (msg # rest) =
     (case get_prop msg (ustr ''role'') of
        Inl e \<Rightarrow> Inl e
      | Inr r \<Rightarrow> if r = JStr (ustr ''assistant'') then Inr msg else find_assistant rest)"

text \<open>Step 5, lines 136 to 151: the newest message of the assistant.\<close>

definition fetch_messages :: "js \<Rightarrow> world \<Rightarrow> (exn + js) \<times> world" where
  "fetch_messages currentThreadId w =
     (case to_string currentThreadId of
        Inl e \<Rightarrow> (Inl e, w)
      | Inr tid \<Rightarrow>
          (case fetch (ListMessages tid) w of
             (Rejected, w1) \<Rightarrow> (Inl FetchError, w1)
           | (Resp messagesResponse, w1) \<Rightarrow>
               if \<not> ok messagesResponse then (Inl (Error (ustr ''Failed to get messages'')), w1)
               else
                 (case json messagesResponse of
                    None \<Rightarrow> (Inl JsonError, w1)
                  | Some messagesData \<Rightarrow>
                      (andThen (get_prop messagesData (ustr ''data'')) (\<lambda>d.
                       andThen (as_array d) (\<lambda>msgs.
                       andThen (find_assistant msgs) (\<lambda>assistantMessage.
                       if \<not> truthy assistantMessage
                       then Inl (Error (ustr ''No assistant response found''))
                       else Inr assistantMessage))), w1))))"

text \<open>Line 155: \<open>.filter(content => content.type === 'text')\<close>.\<close>

fun text_segments :: "js list \<Rightarrow> exn + js list" where
  "text_segments [] = Inr []"
| "text_segments (content # rest) =
     (case get_prop content (ustr ''type'') of
        Inl e \<Rightarrow> Inl e
      | Inr t \<Rightarrow>
          (case text_segments rest of
             Inl e \<Rightarrow> Inl e
           | Inr kept \<Rightarrow> Inr (if t = JStr (ustr ''text'') then content # kept else kept)))"

text \<open>Line 156: \<open>content => content.text.value\<close>.\<close>

definition segment_value :: "js \<Rightarrow> exn + js" where
  "segment_value content =
     andThen (get_prop content (ustr ''text'')) (\<lambda>t. get_prop t (ustr ''value''))"

text \<open>
  Line 160: \<open>.replace(/\<dots>/g, '')\<close> with the pattern: code unit 0x3010 (the opening
  lenticular bracket), any number of code units other than 0x3011, then 0x3011 (the closing
  bracket). \<open>skip_marker cs\<close> is what follows the first closing bracket of \<open>cs\<close>; the
  scan goes from left to right and resumes after each match.
\<close>

definition lbracket :: "16 word" where
  "lbracket = 0x3010"

definition rbracket :: "16 word" where
  "rbracket = 0x3011"

fun skip_marker :: "ustring \<Rightarrow> ustring option" where
  "skip_marker [] = None"
| "skip_marker (c # cs) = (if c = rbracket then Some cs else skip_marker cs)"

function strip_citations :: "ustring \<Rightarrow> ustring" where
  "strip_citations [] = []"
| "strip_citations (c # cs) =
     (if c = lbracket then
        (case skip_marker cs of
           Some rest \<Rightarrow> strip_citations rest
         | None \<Rightarrow> c # strip_citations cs)
      else c # strip_citations cs)"
  by pat_completeness auto
termination
proof (relation "measure length")
  have shorter: "length rest < length cs" if "skip_marker cs = Some rest" for cs rest
    using that by (induction cs) (auto split: if_splits)
  show "\<And>c cs rest. c = lbracket \<Longrightarrow> skip_marker cs = Some rest
          \<Longrightarrow> (rest, c # cs) \<in> measure length"
    using shorter by fastforce
qed auto

text \<open>Step 6, lines 154 to 160: the text of the reply.\<close>

definition response_text :: "js \<Rightarrow> exn + ustring" where
  "response_text assistantMessage =
     andThen (get_prop assistantMessage (ustr ''content'')) (\<lambda>content.
     andThen (as_array content) (\<lambda>segments.
     andThen (text_segments segments) (\<lambda>kept.
     andThen (mapM segment_value kept) (\<lambda>vals.
     andThen (js_join (ustr [CHR 0x0A]) vals) (\<lambda>joined.
     Inr (strip_citations joined))))))"

text \<open>The body of the \<open>try\<close> block, lines 33 to 167.\<close>

definition chat_b_try :: "config \<Rightarrow> js \<Rightarrow> world \<Rightarrow> (exn + reply) \<times> world" where
  "chat_b_try cfg body w =
     (case andThen (get_prop body (ustr ''message'')) (\<lambda>message.
           andThen (get_prop body (ustr ''threadId'')) (\<lambda>t. Inr (message, t))) of
        Inl e \<Rightarrow> (Inl e, w)
      | Inr (message, threadId) \<Rightarrow>
          if \<not> truthy message \<or> \<not> is_string message then
            (Inr (Reply 400 (ErrorOnly (ustr ''Message is required and must be a string''))), w)
          else
            (case assistant_id cfg of
               None \<Rightarrow> (Inr (Reply 500 (ErrorOnly (ustr ''Assistant ID not configured''))), w)
             | Some aid \<Rightarrow>
                 if aid = [] then
                   (Inr (Reply 500 (ErrorOnly (ustr ''Assistant ID not configured''))), w)
                 else
                   thenS (resolve_thread threadId w) (\<lambda>currentThreadId w1.
                   thenS (add_message currentThreadId message w1) (\<lambda>u w2.
                   thenS (start_run aid currentThreadId w2) (\<lambda>runId w3.
                   thenS (wait_for_run currentThreadId runId w3) (\<lambda>u w4.
                   thenS (fetch_messages currentThreadId w4) (\<lambda>assistantMessage w5.
                   (andThen (response_text assistantMessage) (\<lambda>responseText.
                    Inr (Reply 200 (ChatB responseText currentThreadId runId))), w5))))))))"

text \<open>The handler of \<open>POST /api/chat\<close> with its catch-all boundary, lines 31 to 176.\<close>

definition chat_b :: "config \<Rightarrow> js \<Rightarrow> world \<Rightarrow> reply \<times> world" where
  "chat_b cfg body w =
     (case chat_b_try cfg body w of
        (Inl e, w1) \<Rightarrow> (Reply 500 (Caught e), w1)
      | (Inr r, w1) \<Rightarrow> (r, w1))"

section \<open>Notions of the statements, concrete requests and upstreams\<close>

text \<open>An upstream that answers nothing: every call is rejected.\<close>

definition idle_world :: world where
  "idle_world = \<lparr>upstream = (\<lambda>n. Rejected), trace = []\<rparr>"

definition configured :: config where
  "configured = \<lparr>assistant_id = Some (ustr ''asst_1'')\<rparr>"

text \<open>What a handler has added to the trace of the world it started in.\<close>

definition effects :: "world \<Rightarrow> world \<Rightarrow> event list" where
  "effects w w' = drop (length (trace w)) (trace w')"

text \<open>
  The entry that stands for a history entry \<open>e\<close> when role and content are copied as they
  are, and the entry of the new user message.
\<close>

definition verbatim_entry :: "js \<Rightarrow> js" where
  "verbatim_entry e =
     JObj [(ustr ''role'', opt_prop e (ustr ''role'')),
           (ustr ''content'', opt_prop e (ustr ''content''))]"

definition user_entry :: "ustring \<Rightarrow> js" where
  "user_entry m = JObj [(ustr ''role'', JStr (ustr ''user'')), (ustr ''content'', JStr m)]"

text \<open>All messages that a trace forwards to the completion endpoint.\<close>

fun sent_messages :: "event list \<Rightarrow> js list" where
  "sent_messages [] = []"
| "sent_messages (Fetch (ChatCompletion ms) r # evs) = ms @ sent_messages evs"
| "sent_messages (e # evs) = sent_messages evs"

definition recognized_role :: "js \<Rightarrow> bool" where
  "recognized_role e =
     (opt_prop e (ustr ''role'') = JStr (ustr ''system'')
      \<or> opt_prop e (ustr ''role'') = JStr (ustr ''user'')
      \<or> opt_prop e (ustr ''role'') = JStr (ustr ''assistant''))"

text \<open>A request with two turns of history, and one whose history has the role \<open>tool\<close>.\<close>

definition history_turns :: "js list" where
  "history_turns =
     [JObj [(ustr ''role'', JStr (ustr ''user'')), (ustr ''content'', JStr (ustr ''a''))],
      JObj [(ustr ''role'', JStr (ustr ''assistant'')), (ustr ''content'', JStr (ustr ''b''))]]"

definition history_request :: js where
  "history_request =
     JObj [(ustr ''message'', JStr (ustr ''hi'')),
           (ustr ''conversationHistory'', JArr history_turns)]"

definition tool_request :: js where
  "tool_request =
     JObj [(ustr ''message'', JStr (ustr ''hi'')),
           (ustr ''conversationHistory'',
            JArr [JObj [(ustr ''role'', JStr (ustr ''tool'')),
                        (ustr ''content'', JStr (ustr ''x''))]])]"

text \<open>
  The run status that a status fetch delivers to the loop: the \<open>status\<close> property of
  the body of a successful response.
\<close>

definition fetched_status :: "fetch_result \<Rightarrow> js option" where
  "fetched_status fr =
     (case fr of
        Rejected \<Rightarrow> None
      | Resp r \<Rightarrow>
          if ok r then
            (case json r of
               None \<Rightarrow> None
             | Some d \<Rightarrow> (case get_prop d (ustr ''status'') of Inl e \<Rightarrow> None | Inr st \<Rightarrow> Some st))
          else None)"

text \<open>
  An upstream given by the list of its first answers and the answer to every later call.
\<close>

definition script :: "fetch_result list \<Rightarrow> fetch_result \<Rightarrow> nat \<Rightarrow> fetch_result" where
  "script rs final n = (if n < length rs then rs ! n else final)"

text \<open>A response with status 200 and the given JSON body.\<close>

definition with_json :: "js \<Rightarrow> fetch_result" where
  "with_json v = Resp \<lparr>status = 200, json = Some v\<rparr>"

definition run_status :: "string \<Rightarrow> fetch_result" where
  "run_status s = with_json (JObj [(ustr ''status'', JStr (ustr s))])"

text \<open>
  The handler of variant B up to the loop: \<open>Some (currentThreadId, runId, w)\<close> when the
  request passes validation and steps 1 to 3 succeed, leaving the world \<open>w\<close>.
\<close>

definition run_started :: "config \<Rightarrow> js \<Rightarrow> world \<Rightarrow> (js \<times> js \<times> world) option" where
  "run_started cfg body w =
     (case (get_prop body (ustr ''message''), get_prop body (ustr ''threadId''), assistant_id cfg) of
        (Inr message, Inr threadId, Some aid) \<Rightarrow>
          if truthy message \<and> is_string message \<and> aid \<noteq> [] then
            (case thenS (resolve_thread threadId w) (\<lambda>currentThreadId w1.
                  thenS (add_message currentThreadId message w1) (\<lambda>u w2.
                  thenS (start_run aid currentThreadId w2) (\<lambda>runId w3.
                  (Inr (currentThreadId, runId), w3)))) of
               (Inr (currentThreadId, runId), w3) \<Rightarrow> Some (currentThreadId, runId, w3)
             | (Inl e, w3) \<Rightarrow> None)
          else None
      | _ \<Rightarrow> None)"

text \<open>Upstreams for a run that completes, one that never does, and one that fails.\<close>

definition four_statuses :: world where
  "four_statuses =
     \<lparr>upstream = script [run_status ''queued'', run_status ''in_progress'',
                          run_status ''in_progress'', run_status ''completed''] Rejected,
      trace = []\<rparr>"

definition hi_request :: js where
  "hi_request = JObj [(ustr ''message'', JStr (ustr ''hi''))]"

definition run_prelude :: "fetch_result list" where
  "run_prelude =
     [with_json (JObj [(ustr ''id'', JStr (ustr ''thread_1''))]),
      with_json (JObj []),
      with_json (JObj [(ustr ''id'', JStr (ustr ''run_1''))])]"

definition prelude_events :: "event list" where
  "prelude_events =
     [Fetch CreateThread (with_json (JObj [(ustr ''id'', JStr (ustr ''thread_1''))])),
      Fetch (AddMessage (ustr ''thread_1'') (JStr (ustr ''hi''))) (with_json (JObj [])),
      Fetch (CreateRun (ustr ''thread_1'') (ustr ''asst_1''))
        (with_json (JObj [(ustr ''id'', JStr (ustr ''run_1''))]))]"

definition never_done :: "event list \<Rightarrow> world" where
  "never_done evs = \<lparr>upstream = script run_prelude (run_status ''in_progress''), trace = evs\<rparr>"

definition rate_limited :: js where
  "rate_limited =
     JObj [(ustr ''status'', JStr (ustr ''failed'')),
           (ustr ''last_error'', JObj [(ustr ''message'', JStr (ustr ''Rate limit exceeded''))])]"

definition fails_third :: "event list \<Rightarrow> world" where
  "fails_third evs =
     \<lparr>upstream = script (run_prelude @ [run_status ''queued'', run_status ''in_progress''])
                   (with_json rate_limited),
      trace = evs\<rparr>"

text \<open>
  A run status that ends neither the loop nor the request: none of the four final
  statuses, and a value that the log line can print (every string is).
\<close>

definition continuing :: "js \<Rightarrow> bool" where
  "continuing st = (st \<noteq> JStr (ustr ''completed'') \<and> st \<noteq> JStr (ustr ''failed'')
      \<and> st \<noteq> JStr (ustr ''cancelled'') \<and> st \<noteq> JStr (ustr ''expired'')
      \<and> \<not> isl (to_string st))"

text \<open>
  The events of \<open>k\<close> iterations of the loop, each a sleep of one second followed by
  the status fetch, when \<open>n\<close> calls went before; and the world after them.
\<close>

definition polls :: "request \<Rightarrow> (nat \<Rightarrow> fetch_result) \<Rightarrow> nat \<Rightarrow> nat \<Rightarrow> event list" where
  "polls rq up n k = concat (map (\<lambda>i. [Sleep 1000, Fetch rq (up (n + i))]) [0..<k])"

definition after_polls :: "request \<Rightarrow> nat \<Rightarrow> world \<Rightarrow> world" where
  "after_polls rq k w = w\<lparr>trace := trace w @ polls rq (upstream w) (fetches (trace w)) k\<rparr>"

text \<open>The events the loop can add to the trace.\<close>

fun is_poll_event :: "event \<Rightarrow> bool" where
  "is_poll_event (Sleep ms) = (ms = 1000)"
| "is_poll_event (Fetch (GetRun t r) x) = True"
| "is_poll_event e = False"

text \<open>Strings joined by the newline code unit, in order.\<close>

fun join_lines :: "ustring list \<Rightarrow> ustring" where
  "join_lines [] = []"
| "join_lines [s] = s"
| "join_lines (s # t # ts) = s @ [0x0A] @ join_lines (t # ts)"

text \<open>
  A content segment of type \<open>text\<close>, and the \<open>text.value\<close> of a segment.
\<close>

definition is_text_segment :: "js \<Rightarrow> bool" where
  "is_text_segment c = (opt_prop c (ustr ''type'') = JStr (ustr ''text''))"

definition segment_text :: "js \<Rightarrow> js" where
  "segment_text c = opt_prop (opt_prop c (ustr ''text'')) (ustr ''value'')"

text \<open>
  The text \<open>Paris is the capital\<close>, a citation marker (opening bracket 0x3010,
  \<open>4:0\<close>, dagger 0x2020, \<open>source\<close>, closing bracket 0x3011) and a full stop; an
  assistant message with that text; a content list with two text segments around an
  image segment; and a content list of two text segments without a marker.
\<close>

definition paris :: ustring where
  "paris = ustr ''Paris is the capital'' @ [0x3010] @ ustr ''4:0'' @ [0x2020] @ ustr ''source''
           @ [0x3011] @ ustr ''.''"

definition paris_message :: js where
  "paris_message =
     JObj [(ustr ''role'', JStr (ustr ''assistant'')),
           (ustr ''content'',
            JArr [JObj [(ustr ''type'', JStr (ustr ''text'')),
                        (ustr ''text'', JObj [(ustr ''value'', JStr paris)])]])]"

definition two_segments :: "js list" where
  "two_segments =
     [JObj [(ustr ''type'', JStr (ustr ''text'')),
            (ustr ''text'', JObj [(ustr ''value'', JStr (ustr ''one''))])],
      JObj [(ustr ''type'', JStr (ustr ''image_file''))],
      JObj [(ustr ''type'', JStr (ustr ''text'')),
            (ustr ''text'', JObj [(ustr ''value'', JStr paris)])]]"

definition plain_segments :: "js list" where
  "plain_segments =
     [JObj [(ustr ''type'', JStr (ustr ''text'')),
            (ustr ''text'', JObj [(ustr ''value'', JStr (ustr ''one''))])],
      JObj [(ustr ''type'', JStr (ustr ''text'')),
            (ustr ''text'', JObj [(ustr ''value'', JStr (ustr ''two''))])]]"

text \<open>The number of \<open>create thread\<close> calls in a list of events.\<close>

fun is_create_thread :: "event \<Rightarrow> bool" where
  "is_create_thread (Fetch CreateThread r) = True"
| "is_create_thread e = False"

definition create_calls :: "event list \<Rightarrow> nat" where
  "create_calls evs = length (filter is_create_thread evs)"

text \<open>
  An upstream for a run that completes after four status fetches and whose thread then
  holds the assistant message \<open>paris_message\<close>; \<open>first\<close> are the answers to the calls
  before the loop.
\<close>

definition message_list :: fetch_result where
  "message_list = with_json (JObj [(ustr ''data'', JArr [paris_message])])"

definition happy :: "fetch_result list \<Rightarrow> event list \<Rightarrow> world" where
  "happy first evs =
     \<lparr>upstream = script (first @ [run_status ''queued'', run_status ''in_progress'',
                                   run_status ''in_progress'', run_status ''completed''])
                   message_list,
      trace = evs\<rparr>"

text \<open>
  Requests that carry the empty string and the identifier \<open>thread_9\<close> as \<open>threadId\<close>,
  and the events before the loop when \<open>thread_9\<close> is used.
\<close>

definition empty_thread_request :: js where
  "empty_thread_request =
     JObj [(ustr ''message'', JStr (ustr ''hi'')), (ustr ''threadId'', JStr [])]"

definition reuse_request :: js where
  "reuse_request =
     JObj [(ustr ''message'', JStr (ustr ''hi'')), (ustr ''threadId'', JStr (ustr ''thread_9''))]"

definition reuse_events :: "event list" where
  "reuse_events =
     [Fetch (AddMessage (ustr ''thread_9'') (JStr (ustr ''hi''))) (with_json (JObj [])),
      Fetch (CreateRun (ustr ''thread_9'') (ustr ''asst_1''))
        (with_json (JObj [(ustr ''id'', JStr (ustr ''run_1''))]))]"

text \<open>
  \<open>quiet w w'\<close>: the trace of \<open>w'\<close> extends that of \<open>w\<close> by events without a
  \<open>create thread\<close> call.
\<close>

definition quiet :: "world \<Rightarrow> world \<Rightarrow> bool" where
  "quiet w w' = (take (length (trace w)) (trace w') = trace w \<and> create_calls (effects w w') = 0)"

text \<open>
  What variant B throws when the answer to a call has a non-success status: the fixed
  text of the step, or, in the two steps that first read the error body, the rejection
  of \<open>response.json()\<close> when that body is no JSON.
\<close>

fun step_error :: "request \<Rightarrow> ustring" where
  "step_error (ChatCompletion ms) = ustr ''Error from OpenAI API''"
| "step_error CreateThread = ustr ''Failed to create thread''"
| "step_error (AddMessage t m) = ustr ''Failed to add message to thread''"
| "step_error (CreateRun t a) = ustr ''Failed to run assistant''"
| "step_error (GetRun t r) = ustr ''Failed to get run status''"
| "step_error (ListMessages t) = ustr ''Failed to get messages''"

fun reads_error_body :: "request \<Rightarrow> bool" where
  "reads_error_body (AddMessage t m) = True"
| "reads_error_body (CreateRun t a) = True"
| "reads_error_body rq = False"

definition failure_of :: "request \<Rightarrow> http_response \<Rightarrow> exn" where
  "failure_of rq r =
     (if reads_error_body rq \<and> json r = None then JsonError else Error (step_error rq))"

text \<open>An upstream that answers every call with status 401 and an error message.\<close>

definition denied :: http_response where
  "denied =
     \<lparr>status = 401,
      json = Some (JObj [(ustr ''error'',
                          JObj [(ustr ''message'', JStr (ustr ''Incorrect API key''))])])\<rparr>"

definition unauthorized :: world where
  "unauthorized = \<lparr>upstream = (\<lambda>n. Resp denied), trace = []\<rparr>"

text \<open>
  \<open>clean w (res, w')\<close>: the trace of \<open>w'\<close> extends that of \<open>w\<close>, and every call
  among the new events that was answered with a non-success status is the one that made
  the result \<open>res\<close> the failure of that step.
\<close>

fun accounted :: "exn + 'a \<Rightarrow> event \<Rightarrow> bool" where
  "accounted res (Fetch rq (Resp r)) = (ok r \<or> res = Inl (failure_of rq r))"
| "accounted res e = True"

definition clean :: "world \<Rightarrow> (exn + 'a) \<times> world \<Rightarrow> bool" where
  "clean w m = (take (length (trace w)) (trace (snd m)) = trace w
                \<and> list_all (accounted (fst m)) (effects w (snd m)))"

section \<open>Basic facts about strings and property reads\<close>

lemma char_bound: "(of_char c :: nat) < 256"
proof -
  have "(of_char c :: nat) mod 256 = of_char c" by (rule of_char_mod_256)
  moreover have "(of_char c :: nat) mod 256 < 256" by simp
  ultimately show ?thesis by simp
qed

lemma code_unit_unat: "unat (of_nat (of_char c) :: 16 word) = of_char c"
proof -
  have "(of_char c :: nat) < 65536" using char_bound [of c] by linarith
  then show ?thesis by (simp add: unat_of_nat)
qed

lemma code_unit_inj: "((of_nat (of_char c) :: 16 word) = of_nat (of_char d)) = (c = d)"
proof
  assume "(of_nat (of_char c) :: 16 word) = of_nat (of_char d)"
  then have "unat (of_nat (of_char c) :: 16 word) = unat (of_nat (of_char d) :: 16 word)"
    by simp
  then have "(of_char c :: nat) = of_char d"
    by (simp only: code_unit_unat)
  then show "c = d" by simp
qed simp

lemma ustr_eq_iff: "(ustr a = ustr b) = (a = b)"
  unfolding ustr_def
  by (rule inj_map_eq_map) (simp add: inj_on_def code_unit_inj)

lemma get_prop_twice: "get_prop v k = Inr x \<Longrightarrow> get_prop v k' = Inr (opt_prop v k')"
  by (cases v) auto

lemma get_prop_opt: "get_prop v k = Inr x \<Longrightarrow> x = opt_prop v k"
  by (cases v) auto

section \<open>Validation of the request\<close>

text \<open>
  In both servers, a request whose body the destructuring at the head of the handler can
  read (any value but \<open>undefined\<close> and \<open>null\<close>) and which has no \<open>message\<close>
  property, or one that is not a string, is answered with status 400 and the validation
  error, and the world is left as it was: no upstream call is made.
\<close>

lemma validation_rejects_without_upstream_call:
  assumes "get_prop body (ustr ''message'') = Inr message"
    and "message = JUndefined \<or> \<not> is_string message"
  shows "chat_a body w =
           (Reply 400 (ErrorOnly (ustr ''Message is required and must be a string'')), w)
       \<and> chat_b cfg body w =
           (Reply 400 (ErrorOnly (ustr ''Message is required and must be a string'')), w)"
  using assms get_prop_twice [OF assms(1)]
  by (auto simp: chat_a_def chat_a_try_def chat_b_def chat_b_try_def andThen_def)

lemma validation_rejects_examples:
  "get_prop (JObj []) (ustr ''message'') = Inr JUndefined
   \<and> chat_a (JObj []) idle_world =
       (Reply 400 (ErrorOnly (ustr ''Message is required and must be a string'')), idle_world)
   \<and> chat_b configured (JObj []) idle_world =
       (Reply 400 (ErrorOnly (ustr ''Message is required and must be a string'')), idle_world)
   \<and> get_prop (JObj [(ustr ''message'', JNum 5)]) (ustr ''message'') = Inr (JNum 5)
   \<and> \<not> is_string (JNum 5)
   \<and> chat_a (JObj [(ustr ''message'', JNum 5)]) idle_world =
       (Reply 400 (ErrorOnly (ustr ''Message is required and must be a string'')), idle_world)
   \<and> chat_b configured (JObj [(ustr ''message'', JNum 5)]) idle_world =
       (Reply 400 (ErrorOnly (ustr ''Message is required and must be a string'')), idle_world)"
  using validation_rejects_without_upstream_call
          [of "JObj []" JUndefined idle_world configured]
        validation_rejects_without_upstream_call
          [of "JObj [(ustr ''message'', JNum 5)]" "JNum 5" idle_world configured]
  by (simp add: own_def)

text \<open>
  Claim C5 fails for a request without a parsed body. Then \<open>req.body\<close> is
  \<open>undefined\<close>, the destructuring of line 30 (\<open>src/server.js\<close>) and of line 33
  (\<open>src/unnamed/part_000\<close>) raises inside the \<open>try\<close> block before the validation is
  reached, and the catch-all boundary answers with status 500, not with status 400 and the
  validation error. No upstream call is made.
\<close>

theorem missing_body_is_answered_500:
  "chat_a JUndefined w = (Reply 500 (Caught TypeError), w)
   \<and> chat_b cfg JUndefined w = (Reply 500 (Caught TypeError), w)"
  by (simp add: chat_a_def chat_a_try_def chat_b_def chat_b_try_def andThen_def)

theorem missing_body_is_answered_500_witness:
  "chat_a JUndefined idle_world = (Reply 500 (Caught TypeError), idle_world)
   \<and> chat_b configured JUndefined idle_world = (Reply 500 (Caught TypeError), idle_world)
   \<and> code (fst (chat_a JUndefined idle_world)) \<noteq> 400
   \<and> code (fst (chat_b configured JUndefined idle_world)) \<noteq> 400"
  using missing_body_is_answered_500 [of idle_world configured] by simp

section \<open>Variant A: the message list\<close>

lemma ustr_Nil_iff: "(ustr s = []) = (s = [])"
  by (simp add: ustr_def)

lemma as_array_Inr: "as_array v = Inr xs \<Longrightarrow> v = JArr xs"
  by (cases v) auto


lemma copy_entry_Inr: "copy_entry e = Inr c \<Longrightarrow> c = verbatim_entry e"
  by (cases e) (auto simp: copy_entry_def verbatim_entry_def andThen_def)


lemma mapM_copy_entry_Inr: "mapM copy_entry es = Inr cs \<Longrightarrow> cs = map verbatim_entry es"
  by (induction es arbitrary: cs) (auto split: sum.splits dest: copy_entry_Inr)

text \<open>The handler of variant A makes no upstream call or exactly one, the completion call.\<close>

lemma chat_a_effects:
  "effects w (snd (chat_a body w)) = []
   \<or> (\<exists>m h msgs. get_prop body (ustr ''message'') = Inr m
          \<and> get_prop body (ustr ''conversationHistory'') = Inr h
          \<and> truthy m \<and> is_string m
          \<and> build_messages m h = Inr msgs
          \<and> effects w (snd (chat_a body w)) =
               [Fetch (ChatCompletion msgs) (upstream w (fetches (trace w)))])"
  by (auto simp: chat_a_def chat_a_try_def andThen_def fetch_def Let_def effects_def
        split: sum.splits fetch_result.splits)



section \<open>Variant A: the roles that are forwarded\<close>

lemma recognized_verbatim: "recognized_role (verbatim_entry e) = recognized_role e"
  by (simp add: recognized_role_def verbatim_entry_def own_def)

lemma build_messages_roles:
  assumes "build_messages m h = Inr msgs"
    and "\<forall>es. h = JArr es \<longrightarrow> list_all recognized_role es"
  shows "list_all recognized_role msgs"
proof -
  obtain es where es: "as_array (js_or h (JArr [])) = Inr es"
      and msgs: "msgs = system_entry # map verbatim_entry es @
             [JObj [(ustr ''role'', JStr (ustr ''user'')), (ustr ''content'', m)]]"
    using assms(1)
    by (auto simp: build_messages_def andThen_def split: sum.splits dest: mapM_copy_entry_Inr)
  have "list_all recognized_role es"
  proof (cases "truthy h")
    case True
    then have "h = JArr es" using es by (simp add: js_or_def as_array_Inr)
    then show ?thesis using assms(2) by simp
  next
    case False
    then show ?thesis using es by (simp add: js_or_def)
  qed
  then have "list_all recognized_role (map verbatim_entry es)"
    by (simp add: list_all_iff recognized_verbatim)
  then show ?thesis
    by (simp add: msgs recognized_role_def system_entry_def own_def)
qed

text \<open>
  Claim C9, as stated, fails: the role of a history entry is copied without a check. A
  history entry with role \<open>tool\<close> is forwarded with that role.
\<close>

theorem unrecognized_role_is_forwarded:
  "\<not> list_all recognized_role
       (sent_messages (effects idle_world (snd (chat_a tool_request idle_world))))"
  by (simp add: chat_a_def chat_a_try_def andThen_def fetch_def Let_def effects_def
        tool_request_def idle_world_def own_def build_messages_def js_or_def copy_entry_def
        fetches_def recognized_role_def system_entry_def ustr_eq_iff ustr_Nil_iff)

text \<open>
  Claim C9, amended. The handler adds a system entry and a user entry and copies the roles
  of the history: every forwarded message has a recognized role whenever every entry of
  the history that the request carries has one.
\<close>

theorem forwarded_roles_recognized_if_history_roles_are:
  assumes "\<forall>es. opt_prop body (ustr ''conversationHistory'') = JArr es
             \<longrightarrow> list_all recognized_role es"
  shows "list_all recognized_role (sent_messages (effects w (snd (chat_a body w))))"
  using chat_a_effects [of w body]
proof (elim disjE exE conjE)
  fix m h msgs
  assume h: "get_prop body (ustr ''conversationHistory'') = Inr h"
    and b: "build_messages m h = Inr msgs"
    and e: "effects w (snd (chat_a body w)) =
               [Fetch (ChatCompletion msgs) (upstream w (fetches (trace w)))]"
  have "h = opt_prop body (ustr ''conversationHistory'')" using h by (rule get_prop_opt)
  then have "list_all recognized_role msgs"
    using build_messages_roles [OF b] assms by simp
  then show ?thesis by (simp add: e)
qed simp

theorem forwarded_roles_recognized_if_history_roles_are_witness:
  "opt_prop history_request (ustr ''conversationHistory'') = JArr history_turns
   \<and> list_all recognized_role history_turns
   \<and> sent_messages (effects idle_world (snd (chat_a history_request idle_world))) \<noteq> []
   \<and> list_all recognized_role
       (sent_messages (effects idle_world (snd (chat_a history_request idle_world))))"
proof -
  have hist: "opt_prop history_request (ustr ''conversationHistory'') = JArr history_turns"
    by (simp add: history_request_def own_def ustr_eq_iff)
  have roles: "list_all recognized_role history_turns"
    by (simp add: history_turns_def recognized_role_def own_def ustr_eq_iff)
  have sent: "sent_messages (effects idle_world (snd (chat_a history_request idle_world))) \<noteq> []"
    by (simp add: chat_a_def chat_a_try_def andThen_def fetch_def Let_def effects_def
          history_request_def history_turns_def idle_world_def own_def build_messages_def
          js_or_def copy_entry_def fetches_def ustr_eq_iff ustr_Nil_iff)
  show ?thesis
    using forwarded_roles_recognized_if_history_roles_are [of history_request idle_world]
      hist roles sent
    by simp
qed

section \<open>Variant B: the polling loop\<close>

lemma polls_0: "polls rq up n 0 = []"
  by (simp add: polls_def)

lemma polls_Suc_front: "polls rq up n (Suc k) = Sleep 1000 # Fetch rq (up n) # polls rq up (Suc n) k"
proof -
  have "[0..<Suc k] = 0 # map Suc [0..<k]"
    by (simp add: upt_conv_Cons map_Suc_upt del: upt_Suc)
  then show ?thesis by (simp add: polls_def comp_def)
qed

lemma fetches_polls: "fetches (polls rq up n k) = k"
  by (induction k arbitrary: n) (simp_all add: polls_0 polls_Suc_front fetches_def)

lemma fetches_append: "fetches (xs @ ys) = fetches xs + fetches ys"
  by (simp add: fetches_def)

lemma after_polls_0: "after_polls rq 0 w = w"
  by (simp add: after_polls_def polls_0)

lemma after_polls_Suc:
  "after_polls rq (Suc k) w = after_polls rq k (after_polls rq (Suc 0) w)"
  by (simp add: after_polls_def polls_Suc_front polls_0 fetches_append fetches_def)

lemma poll_exit:
  "runStatus = JStr (ustr ''completed'') \<or> runStatus = JStr (ustr ''failed'') \<or> maxAttempts \<le> attempts
   \<Longrightarrow> poll tid rid runStatus attempts w = (Inr runStatus, w)"
  by (subst poll.simps) auto

lemma poll_once:
  assumes "to_string tid = Inr t" and "to_string rid = Inr r"
    and "runStatus \<noteq> JStr (ustr ''completed'')" and "runStatus \<noteq> JStr (ustr ''failed'')"
    and "attempts < maxAttempts"
    and "fetched_status (upstream w (fetches (trace w))) = Some st"
    and "st \<noteq> JStr (ustr ''failed'')" and "st \<noteq> JStr (ustr ''cancelled'')"
    and "st \<noteq> JStr (ustr ''expired'')" and "\<not> isl (to_string st)"
  shows "poll tid rid runStatus attempts w =
           poll tid rid st (Suc attempts) (after_polls (GetRun t r) (Suc 0) w)"
  using assms
  by (subst poll.simps)
     (auto simp: andThen_def fetch_def sleep_def Let_def fetched_status_def after_polls_def
        polls_Suc_front polls_0 fetches_append fetches_def
        split: fetch_result.splits option.splits sum.splits if_splits)

lemma poll_fail:
  assumes "to_string tid = Inr t" and "to_string rid = Inr r"
    and "runStatus \<noteq> JStr (ustr ''completed'')" and "runStatus \<noteq> JStr (ustr ''failed'')"
    and "attempts < maxAttempts"
    and "upstream w (fetches (trace w)) = Resp resp" and "ok resp" and "json resp = Some d"
    and "get_prop d (ustr ''status'') = Inr st"
    and "st = JStr (ustr ''failed'') \<or> st = JStr (ustr ''cancelled'') \<or> st = JStr (ustr ''expired'')"
  shows "poll tid rid runStatus attempts w =
           (Inl (run_failure st d), after_polls (GetRun t r) (Suc 0) w)"
  using assms
  by (subst poll.simps)
     (auto simp: andThen_def fetch_def sleep_def Let_def after_polls_def
        polls_Suc_front polls_0 fetches_append fetches_def)

lemma poll_steps:
  assumes "to_string tid = Inr t" and "to_string rid = Inr r"
  shows "runStatus \<noteq> JStr (ustr ''completed'') \<Longrightarrow> runStatus \<noteq> JStr (ustr ''failed'')
    \<Longrightarrow> attempts + k \<le> maxAttempts
    \<Longrightarrow> \<forall>i<k. fetched_status (upstream w (fetches (trace w) + i)) = Some (sts i) \<and> continuing (sts i)
    \<Longrightarrow> poll tid rid runStatus attempts w =
          poll tid rid (if k = 0 then runStatus else sts (k - 1)) (attempts + k)
            (after_polls (GetRun t r) k w)"
proof (induction k arbitrary: runStatus attempts w sts)
  case 0
  then show ?case by (simp add: after_polls_0)
next
  case (Suc k)
  let ?w1 = "after_polls (GetRun t r) (Suc 0) w"
  have first: "fetched_status (upstream w (fetches (trace w))) = Some (sts 0)" "continuing (sts 0)"
    using Suc.prems(4) by auto
  have step: "poll tid rid runStatus attempts w = poll tid rid (sts 0) (Suc attempts) ?w1"
    using assms Suc.prems(1,2,3) first
    by (intro poll_once) (auto simp: continuing_def)
  have up: "upstream ?w1 = upstream w" and n: "fetches (trace ?w1) = Suc (fetches (trace w))"
    by (simp_all add: after_polls_def fetches_append fetches_polls)
  have rest: "\<forall>i<k. fetched_status (upstream ?w1 (fetches (trace ?w1) + i)) = Some (sts (Suc i))
                 \<and> continuing (sts (Suc i))"
  proof (intro allI impI)
    fix i assume "i < k"
    then have "Suc i < Suc k" by simp
    then have "fetched_status (upstream w (fetches (trace w) + Suc i)) = Some (sts (Suc i))
        \<and> continuing (sts (Suc i))"
      using Suc.prems(4) by blast
    then show "fetched_status (upstream ?w1 (fetches (trace ?w1) + i)) = Some (sts (Suc i))
                 \<and> continuing (sts (Suc i))"
      by (simp add: up n)
  qed
  have "poll tid rid (sts 0) (Suc attempts) ?w1 =
          poll tid rid (if k = 0 then sts 0 else sts (Suc (k - 1))) (Suc attempts + k)
            (after_polls (GetRun t r) k ?w1)"
    using first(2) Suc.prems(3) rest
    by (intro Suc.IH [where sts = "\<lambda>i. sts (Suc i)"]) (auto simp: continuing_def)
  then show ?case
    using step by (cases k) (simp_all add: after_polls_Suc [symmetric] after_polls_0)
qed

lemma poll_step_cases:
  assumes "runStatus \<noteq> JStr (ustr ''completed'')" and "runStatus \<noteq> JStr (ustr ''failed'')"
    and "attempts < maxAttempts"
  obtains
    (template) e where "poll tid rid runStatus attempts w = (Inl e, sleep 1000 w)"
      and "to_string tid = Inl e \<or> to_string rid = Inl e"
  | (stop) t r e where "to_string tid = Inr t" and "to_string rid = Inr r"
      and "poll tid rid runStatus attempts w = (Inl e, after_polls (GetRun t r) (Suc 0) w)"
      and "\<And>resp. upstream w (fetches (trace w)) = Resp resp \<Longrightarrow> \<not> ok resp
             \<Longrightarrow> e = Error (ustr ''Failed to get run status'')"
  | (continue) t r st where "to_string tid = Inr t" and "to_string rid = Inr r"
      and "poll tid rid runStatus attempts w =
             poll tid rid st (Suc attempts) (after_polls (GetRun t r) (Suc 0) w)"
      and "fetched_status (upstream w (fetches (trace w))) = Some st"
      and "st \<noteq> JStr (ustr ''failed'')" and "st \<noteq> JStr (ustr ''cancelled'')"
      and "st \<noteq> JStr (ustr ''expired'')" and "\<not> isl (to_string st)"
proof (cases "to_string tid")
  case (Inl e)
  then have "poll tid rid runStatus attempts w = (Inl e, sleep 1000 w)"
    using assms by (subst poll.simps) (simp add: andThen_def)
  then show ?thesis using Inl template by blast
next
  case t: (Inr t)
  show ?thesis
  proof (cases "to_string rid")
    case (Inl e)
    then have "poll tid rid runStatus attempts w = (Inl e, sleep 1000 w)"
      using assms t by (subst poll.simps) (simp add: andThen_def)
    then show ?thesis using Inl template by blast
  next
    case r: (Inr r)
    have w1: "snd (fetch (GetRun t r) (sleep 1000 w)) = after_polls (GetRun t r) (Suc 0) w"
      and f1: "fst (fetch (GetRun t r) (sleep 1000 w)) = upstream w (fetches (trace w))"
      by (simp_all add: fetch_def sleep_def Let_def after_polls_def polls_Suc_front polls_0
            fetches_append fetches_def)
    show ?thesis
    proof (cases "fetched_status (upstream w (fetches (trace w)))")
      case None
      then have "\<exists>e. poll tid rid runStatus attempts w = (Inl e, after_polls (GetRun t r) (Suc 0) w)
           \<and> (\<forall>resp. upstream w (fetches (trace w)) = Resp resp \<longrightarrow> \<not> ok resp
                 \<longrightarrow> e = Error (ustr ''Failed to get run status''))"
        using assms t r w1 f1
        by (subst poll.simps)
           (auto simp: andThen_def fetched_status_def split_beta
              split: fetch_result.splits option.splits sum.splits if_splits)
      then show ?thesis using stop t r by blast
    next
      case (Some st)
      then obtain resp d where resp: "upstream w (fetches (trace w)) = Resp resp" "ok resp"
          "json resp = Some d" "get_prop d (ustr ''status'') = Inr st"
        by (auto simp: fetched_status_def split: fetch_result.splits option.splits sum.splits if_splits)
      show ?thesis
      proof (cases "to_string st")
        case (Inl e)
        then have "poll tid rid runStatus attempts w =
                     (Inl e, after_polls (GetRun t r) (Suc 0) w)"
          using assms t r resp w1 f1
          by (subst poll.simps) (auto simp: andThen_def split_beta)
        then show ?thesis using stop [OF t r] resp by auto
      next
        case printed: (Inr logged)
        show ?thesis
        proof (cases "st = JStr (ustr ''failed'') \<or> st = JStr (ustr ''cancelled'')
                       \<or> st = JStr (ustr ''expired'')")
          case True
          then have "poll tid rid runStatus attempts w =
                       (Inl (run_failure st d), after_polls (GetRun t r) (Suc 0) w)"
            using assms t r resp by (intro poll_fail) auto
          then show ?thesis using stop [OF t r] resp by auto
        next
          case False
          then have "poll tid rid runStatus attempts w =
               poll tid rid st (Suc attempts) (after_polls (GetRun t r) (Suc 0) w)"
            using assms t r Some printed by (intro poll_once) auto
          then show ?thesis using continue [OF t r] Some False printed by auto
        qed
      qed
    qed
  qed
qed

lemma after_polls_trace:
  "trace (after_polls rq k w) = trace w @ polls rq (upstream w) (fetches (trace w)) k"
  "upstream (after_polls rq k w) = upstream w"
  "fetches (trace (after_polls rq k w)) = fetches (trace w) + k"
  by (simp_all add: after_polls_def fetches_append fetches_polls)

lemma poll_events_polls: "list_all is_poll_event (polls (GetRun t r) up n k)"
  by (induction k arbitrary: n) (simp_all add: polls_0 polls_Suc_front)

lemma poll_trace:
  "\<exists>evs. trace (snd (poll tid rid runStatus attempts w)) = trace w @ evs
     \<and> upstream (snd (poll tid rid runStatus attempts w)) = upstream w
     \<and> list_all is_poll_event evs \<and> fetches evs \<le> maxAttempts - attempts"
proof (induction "maxAttempts - attempts" arbitrary: runStatus attempts w)
  case 0
  then have "poll tid rid runStatus attempts w = (Inr runStatus, w)"
    by (intro poll_exit) simp
  then show ?case by (simp add: fetches_def)
next
  case (Suc d)
  show ?case
  proof (cases "runStatus = JStr (ustr ''completed'') \<or> runStatus = JStr (ustr ''failed'')")
    case True
    then have "poll tid rid runStatus attempts w = (Inr runStatus, w)"
      by (intro poll_exit) blast
    then show ?thesis by (simp add: fetches_def)
  next
    case False
    then have c: "runStatus \<noteq> JStr (ustr ''completed'')" "runStatus \<noteq> JStr (ustr ''failed'')"
        "attempts < maxAttempts"
      using Suc.hyps(2) by auto
    from c show ?thesis
    proof (cases rule: poll_step_cases [where tid = tid and rid = rid and w = w])
      case (template e)
      then show ?thesis by (simp add: sleep_def fetches_def)
    next
      case (stop t r e)
      have "fetches (polls (GetRun t r) (upstream w) (fetches (trace w)) (Suc 0)) \<le> maxAttempts - attempts"
        using c(3) by (simp add: fetches_polls)
      then show ?thesis
        using stop(3) by (simp add: after_polls_trace poll_events_polls)
    next
      case (continue t r st)
      let ?w1 = "after_polls (GetRun t r) (Suc 0) w"
      have "d = maxAttempts - Suc attempts" using Suc.hyps(2) by simp
      from Suc.hyps(1) [OF this, of st ?w1]
      obtain evs where evs: "trace (snd (poll tid rid st (Suc attempts) ?w1)) = trace ?w1 @ evs"
        "upstream (snd (poll tid rid st (Suc attempts) ?w1)) = upstream ?w1"
        "list_all is_poll_event evs" "fetches evs \<le> maxAttempts - Suc attempts"
        by blast
      let ?evs = "polls (GetRun t r) (upstream w) (fetches (trace w)) (Suc 0) @ evs"
      have "trace (snd (poll tid rid runStatus attempts w)) = trace w @ ?evs"
        using evs(1) continue(3) by (simp add: after_polls_trace)
      moreover have "upstream (snd (poll tid rid runStatus attempts w)) = upstream w"
        using evs(2) continue(3) by (simp add: after_polls_trace)
      moreover have "list_all is_poll_event ?evs"
        using evs(3) by (simp add: poll_events_polls)
      moreover have "fetches ?evs \<le> maxAttempts - attempts"
        using evs(4) c(3) by (simp add: fetches_append fetches_polls)
      ultimately show ?thesis by blast
    qed
  qed
qed

lemma poll_Inr:
  "runStatus \<noteq> JStr (ustr ''failed'') \<Longrightarrow> poll tid rid runStatus attempts w = (Inr st, w1)
   \<Longrightarrow> st \<noteq> JStr (ustr ''failed'')
       \<and> (st = JStr (ustr ''completed'')
           \<or> fetches (trace w1) = fetches (trace w) + (maxAttempts - attempts))"
proof (induction "maxAttempts - attempts" arbitrary: runStatus attempts w)
  case 0
  then have "poll tid rid runStatus attempts w = (Inr runStatus, w)"
    by (intro poll_exit) simp
  then show ?case using 0 by simp
next
  case (Suc d)
  show ?case
  proof (cases "runStatus = JStr (ustr ''completed'')")
    case True
    then have "poll tid rid runStatus attempts w = (Inr runStatus, w)"
      by (intro poll_exit) simp
    then show ?thesis using Suc.prems True by (auto simp: ustr_eq_iff)
  next
    case False
    then have c: "runStatus \<noteq> JStr (ustr ''completed'')" "runStatus \<noteq> JStr (ustr ''failed'')"
        "attempts < maxAttempts"
      using Suc.hyps(2) Suc.prems(1) by auto
    from c show ?thesis
    proof (cases rule: poll_step_cases [where tid = tid and rid = rid and w = w])
      case (template e)
      then show ?thesis using Suc.prems(2) by simp
    next
      case (stop t r e)
      then show ?thesis using Suc.prems(2) by simp
    next
      case (continue t r s)
      let ?w1 = "after_polls (GetRun t r) (Suc 0) w"
      have d: "d = maxAttempts - Suc attempts" using Suc.hyps(2) by simp
      have "poll tid rid s (Suc attempts) ?w1 = (Inr st, w1)"
        using continue(3) Suc.prems(2) by simp
      from Suc.hyps(1) [OF d continue(5) this]
      show ?thesis using c(3) by (auto simp: after_polls_trace(3))
    qed
  qed
qed

lemma poll_fetch_bound:
  "fetches (effects w (snd (poll tid rid runStatus attempts w))) \<le> maxAttempts - attempts"
  using poll_trace [of tid rid runStatus attempts w] by (auto simp: effects_def)

lemma poll_after_polls:
  assumes "to_string tid = Inr t" and "to_string rid = Inr r"
  shows "\<exists>k\<le>maxAttempts - attempts.
           snd (poll tid rid runStatus attempts w) = after_polls (GetRun t r) k w"
proof (induction "maxAttempts - attempts" arbitrary: runStatus attempts w)
  case 0
  then have "poll tid rid runStatus attempts w = (Inr runStatus, w)"
    by (intro poll_exit) simp
  then show ?case by (intro exI [of _ 0]) (simp add: after_polls_0)
next
  case (Suc d)
  show ?case
  proof (cases "runStatus = JStr (ustr ''completed'') \<or> runStatus = JStr (ustr ''failed'')")
    case True
    then have "poll tid rid runStatus attempts w = (Inr runStatus, w)"
      by (intro poll_exit) blast
    then show ?thesis by (intro exI [of _ 0]) (simp add: after_polls_0)
  next
    case False
    then have c: "runStatus \<noteq> JStr (ustr ''completed'')" "runStatus \<noteq> JStr (ustr ''failed'')"
        "attempts < maxAttempts"
      using Suc.hyps(2) by auto
    from c show ?thesis
    proof (cases rule: poll_step_cases [where tid = tid and rid = rid and w = w])
      case (template e)
      then show ?thesis using assms by auto
    next
      case (stop t' r' e)
      then have "snd (poll tid rid runStatus attempts w) = after_polls (GetRun t r) (Suc 0) w"
        using assms by simp
      then show ?thesis using c(3) by (intro exI [of _ "Suc 0"]) simp
    next
      case (continue t' r' st)
      let ?w1 = "after_polls (GetRun t r) (Suc 0) w"
      have "d = maxAttempts - Suc attempts" using Suc.hyps(2) by simp
      from Suc.hyps(1) [OF this, of st ?w1]
      obtain k where k: "k \<le> maxAttempts - Suc attempts"
        "snd (poll tid rid st (Suc attempts) ?w1) = after_polls (GetRun t r) k ?w1"
        by blast
      have "t' = t" and "r' = r" using continue(1,2) assms by simp_all
      then have "snd (poll tid rid runStatus attempts w) = after_polls (GetRun t r) k ?w1"
        using continue(3) k(2) by simp
      then have "snd (poll tid rid runStatus attempts w) = after_polls (GetRun t r) (Suc k) w"
        by (simp only: after_polls_Suc [symmetric])
      then show ?thesis using k(1) c(3) by (intro exI [of _ "Suc k"]) simp
    qed
  qed
qed

lemma wait_world: "snd (wait_for_run tid rid w) = snd (poll tid rid (JStr (ustr ''queued'')) 0 w)"
  by (simp add: wait_for_run_def split: prod.splits sum.splits)

lemma failed_wait_is_500:
  assumes "run_started cfg body w0 = Some (cur, rid, w)"
    and "wait_for_run cur rid w = (Inl e, w1)"
  shows "chat_b cfg body w0 = (Reply 500 (Caught e), w1)"
  using assms
  by (auto simp: run_started_def chat_b_def chat_b_try_def thenS_def andThen_def
        split: sum.splits option.splits if_splits prod.splits)

lemma polls_add: "polls rq up n (k + j) = polls rq up n k @ polls rq up (n + k) j"
  by (induction k arbitrary: n) (simp_all add: polls_0 polls_Suc_front)

lemma after_polls_add: "after_polls rq j (after_polls rq k w) = after_polls rq (k + j) w"
  by (simp add: after_polls_def polls_add fetches_append fetches_polls)

lemma poll_completes:
  assumes "to_string tid = Inr t" and "to_string rid = Inr r"
    and "runStatus \<noteq> JStr (ustr ''completed'')" and "runStatus \<noteq> JStr (ustr ''failed'')"
    and "attempts + k < maxAttempts"
    and "\<forall>i<k. fetched_status (upstream w (fetches (trace w) + i)) = Some (sts i) \<and> continuing (sts i)"
    and "fetched_status (upstream w (fetches (trace w) + k)) = Some (JStr (ustr ''completed''))"
  shows "poll tid rid runStatus attempts w =
           (Inr (JStr (ustr ''completed'')), after_polls (GetRun t r) (Suc k) w)"
proof -
  let ?wk = "after_polls (GetRun t r) k w"
  let ?st = "if k = 0 then runStatus else sts (k - 1)"
  have "poll tid rid runStatus attempts w = poll tid rid ?st (attempts + k) ?wk"
    using assms by (intro poll_steps) auto
  moreover have st: "?st \<noteq> JStr (ustr ''completed'')" "?st \<noteq> JStr (ustr ''failed'')"
    using assms(3,4,6) by (auto simp: continuing_def)
  have "poll tid rid ?st (attempts + k) ?wk =
          poll tid rid (JStr (ustr ''completed'')) (Suc (attempts + k))
            (after_polls (GetRun t r) (Suc 0) ?wk)"
    using assms(1,2,5,7) st
    by (intro poll_once) (auto simp: after_polls_trace(2,3) ustr_eq_iff)
  moreover have "after_polls (GetRun t r) (Suc 0) ?wk = after_polls (GetRun t r) (Suc k) w"
    by (simp add: after_polls_add)
  ultimately show ?thesis by (simp add: poll_exit)
qed

lemma poll_exhausts:
  assumes "to_string tid = Inr t" and "to_string rid = Inr r"
    and "runStatus \<noteq> JStr (ustr ''completed'')" and "runStatus \<noteq> JStr (ustr ''failed'')"
    and "attempts + k = maxAttempts" and "0 < k"
    and "\<forall>i<k. fetched_status (upstream w (fetches (trace w) + i)) = Some (sts i) \<and> continuing (sts i)"
  shows "poll tid rid runStatus attempts w = (Inr (sts (k - 1)), after_polls (GetRun t r) k w)"
proof -
  have "poll tid rid runStatus attempts w =
          poll tid rid (sts (k - 1)) (attempts + k) (after_polls (GetRun t r) k w)"
    using poll_steps [OF assms(1,2,3,4) _ assms(7)] assms(5,6) by simp
  then show ?thesis using assms(5) by (simp add: poll_exit)
qed

lemma effects_after_polls:
  "effects w (after_polls rq k w) = polls rq (upstream w) (fetches (trace w)) k"
  by (simp add: effects_def after_polls_def)

lemma polls_4:
  "polls rq up n 4 =
     [Sleep 1000, Fetch rq (up n), Sleep 1000, Fetch rq (up (n + 1)),
      Sleep 1000, Fetch rq (up (n + 2)), Sleep 1000, Fetch rq (up (n + 3))]"
proof -
  have "polls rq up n (Suc (Suc (Suc (Suc 0)))) =
     [Sleep 1000, Fetch rq (up n), Sleep 1000, Fetch rq (up (n + 1)),
      Sleep 1000, Fetch rq (up (n + 2)), Sleep 1000, Fetch rq (up (n + 3))]"
    by (simp add: polls_Suc_front polls_0 numeral_3_eq_3)
  moreover have "(4::nat) = Suc (Suc (Suc (Suc 0)))" by simp
  ultimately show ?thesis by (simp only:)
qed

text \<open>
  Claim C2. Every iteration of the loop first sleeps one second and then fetches the run
  status: whatever the upstream answers, the loop adds \<open>polls\<close> of some number of
  iterations to the trace. When the four fetched statuses are \<open>queued\<close>,
  \<open>in_progress\<close>, \<open>in_progress\<close>, \<open>completed\<close>, the wait succeeds after exactly
  four status fetches and four sleeps of 1000 ms, each sleep before its fetch.
\<close>

theorem four_statuses_four_fetches:
  assumes "to_string currentThreadId = Inr t" and "to_string runId = Inr r"
    and "fetched_status (upstream w (fetches (trace w))) = Some (JStr (ustr ''queued''))"
    and "fetched_status (upstream w (fetches (trace w) + 1)) = Some (JStr (ustr ''in_progress''))"
    and "fetched_status (upstream w (fetches (trace w) + 2)) = Some (JStr (ustr ''in_progress''))"
    and "fetched_status (upstream w (fetches (trace w) + 3)) = Some (JStr (ustr ''completed''))"
  shows "wait_for_run currentThreadId runId w = (Inr (), after_polls (GetRun t r) 4 w)
     \<and> effects w (after_polls (GetRun t r) 4 w) =
         [Sleep 1000, Fetch (GetRun t r) (upstream w (fetches (trace w))),
          Sleep 1000, Fetch (GetRun t r) (upstream w (fetches (trace w) + 1)),
          Sleep 1000, Fetch (GetRun t r) (upstream w (fetches (trace w) + 2)),
          Sleep 1000, Fetch (GetRun t r) (upstream w (fetches (trace w) + 3))]
     \<and> fetches (effects w (after_polls (GetRun t r) 4 w)) = 4
     \<and> count_list (effects w (after_polls (GetRun t r) 4 w)) (Sleep 1000) = 4
     \<and> (\<forall>w'. \<exists>k. effects w' (snd (wait_for_run currentThreadId runId w')) =
                     polls (GetRun t r) (upstream w') (fetches (trace w')) k)"
proof -
  let ?sts = "\<lambda>i::nat. if i = 0 then JStr (ustr ''queued'') else JStr (ustr ''in_progress'')"
  have sts: "\<forall>i<3. fetched_status (upstream w (fetches (trace w) + i)) = Some (?sts i)
               \<and> continuing (?sts i)"
  proof (intro allI impI)
    fix i :: nat assume "i < 3"
    then have "i = 0 \<or> i = 1 \<or> i = 2" by auto
    then show "fetched_status (upstream w (fetches (trace w) + i)) = Some (?sts i)
               \<and> continuing (?sts i)"
      using assms(3,4,5) by (auto simp: continuing_def ustr_eq_iff)
  qed
  have "poll currentThreadId runId (JStr (ustr ''queued'')) 0 w =
          (Inr (JStr (ustr ''completed'')), after_polls (GetRun t r) (Suc 3) w)"
    using assms(1,2,6) sts
    by (intro poll_completes [where sts = ?sts]) (simp_all add: ustr_eq_iff maxAttempts_def)
  then have 1: "wait_for_run currentThreadId runId w = (Inr (), after_polls (GetRun t r) 4 w)"
    by (simp add: wait_for_run_def)
  have 2: "\<exists>k. effects w' (snd (wait_for_run currentThreadId runId w')) =
                     polls (GetRun t r) (upstream w') (fetches (trace w')) k" for w'
    using poll_after_polls [OF assms(1,2), of 0 "JStr (ustr ''queued'')" w']
    by (auto simp: wait_world effects_after_polls)
  show ?thesis
    using 1 2 by (simp add: effects_after_polls polls_4 fetches_def)
qed

theorem four_statuses_four_fetches_witness:
  "wait_for_run (JStr (ustr ''thread_1'')) (JStr (ustr ''run_1'')) four_statuses =
     (Inr (), after_polls (GetRun (ustr ''thread_1'') (ustr ''run_1'')) 4 four_statuses)
   \<and> effects four_statuses (after_polls (GetRun (ustr ''thread_1'') (ustr ''run_1'')) 4 four_statuses) =
       [Sleep 1000, Fetch (GetRun (ustr ''thread_1'') (ustr ''run_1'')) (run_status ''queued''),
        Sleep 1000, Fetch (GetRun (ustr ''thread_1'') (ustr ''run_1'')) (run_status ''in_progress''),
        Sleep 1000, Fetch (GetRun (ustr ''thread_1'') (ustr ''run_1'')) (run_status ''in_progress''),
        Sleep 1000, Fetch (GetRun (ustr ''thread_1'') (ustr ''run_1'')) (run_status ''completed'')]"
  using four_statuses_four_fetches [of "JStr (ustr ''thread_1'')" "ustr ''thread_1''" "JStr (ustr ''run_1'')" "ustr ''run_1''"
              four_statuses]
  by (simp add: four_statuses_def script_def run_status_def with_json_def fetched_status_def
        ok_def own_def fetches_def)

lemma effects_fetches:
  assumes "trace w1 = trace w @ evs"
  shows "fetches (effects w w1) = fetches (trace w1) - fetches (trace w)"
  using assms by (simp add: effects_def fetches_append)

text \<open>
  Claim C3. The loop is a total function and, whatever the upstream answers, makes at
  most 60 status fetches. When it ends with a status other than \<open>completed\<close>, it has
  made exactly 60 fetches, the wait fails with the error \<open>Assistant response timeout\<close>,
  and the handler answers with status 500.
\<close>

theorem poll_at_most_sixty_fetches_then_timeout:
  "fetches (effects w (snd (wait_for_run currentThreadId runId w))) \<le> 60
   \<and> (poll currentThreadId runId (JStr (ustr ''queued'')) 0 w = (Inr st, w1)
        \<and> st \<noteq> JStr (ustr ''completed'')
       \<longrightarrow> fetches (effects w w1) = 60
         \<and> wait_for_run currentThreadId runId w =
             (Inl (Error (ustr ''Assistant response timeout'')), w1)
         \<and> (run_started cfg body w0 = Some (currentThreadId, runId, w)
             \<longrightarrow> chat_b cfg body w0 =
                   (Reply 500 (Caught (Error (ustr ''Assistant response timeout''))), w1)))"
proof (intro conjI impI)
  show "fetches (effects w (snd (wait_for_run currentThreadId runId w))) \<le> 60"
    using poll_fetch_bound [of w currentThreadId runId "JStr (ustr ''queued'')" 0]
    by (simp add: wait_world maxAttempts_def)
next
  assume a: "poll currentThreadId runId (JStr (ustr ''queued'')) 0 w = (Inr st, w1)
        \<and> st \<noteq> JStr (ustr ''completed'')"
  then have p: "poll currentThreadId runId (JStr (ustr ''queued'')) 0 w = (Inr st, w1)"
    and st: "st \<noteq> JStr (ustr ''completed'')" by simp_all
  have "fetches (trace w1) = fetches (trace w) + maxAttempts"
    using poll_Inr [OF _ p] st by (simp add: ustr_eq_iff)
  moreover obtain evs where "trace w1 = trace w @ evs"
    using poll_trace [of currentThreadId runId "JStr (ustr ''queued'')" 0 w] p by auto
  ultimately show "fetches (effects w w1) = 60"
    by (simp add: effects_fetches maxAttempts_def)
  show wait: "wait_for_run currentThreadId runId w =
             (Inl (Error (ustr ''Assistant response timeout'')), w1)"
    using p st by (simp add: wait_for_run_def)
  assume "run_started cfg body w0 = Some (currentThreadId, runId, w)"
  then show "chat_b cfg body w0 =
                   (Reply 500 (Caught (Error (ustr ''Assistant response timeout''))), w1)"
    using wait by (rule failed_wait_is_500)
qed

lemma never_done_started:
  "run_started configured hi_request (never_done []) =
     Some (JStr (ustr ''thread_1''), JStr (ustr ''run_1''), never_done prelude_events)"
  by (simp add: run_started_def configured_def hi_request_def never_done_def prelude_events_def
        run_prelude_def script_def with_json_def thenS_def resolve_thread_def add_message_def
        start_run_def fetch_def fetches_def ok_def own_def ustr_eq_iff ustr_Nil_iff Let_def)

lemma never_done_polls:
  "poll (JStr (ustr ''thread_1'')) (JStr (ustr ''run_1'')) (JStr (ustr ''queued'')) 0
     (never_done prelude_events) =
   (Inr (JStr (ustr ''in_progress'')),
    after_polls (GetRun (ustr ''thread_1'') (ustr ''run_1'')) 60 (never_done prelude_events))"
proof -
  have "poll (JStr (ustr ''thread_1'')) (JStr (ustr ''run_1'')) (JStr (ustr ''queued'')) 0
     (never_done prelude_events) =
   (Inr ((\<lambda>i. JStr (ustr ''in_progress'')) (60 - 1 :: nat)),
    after_polls (GetRun (ustr ''thread_1'') (ustr ''run_1'')) 60 (never_done prelude_events))"
    by (rule poll_exhausts)
       (simp_all add: ustr_eq_iff maxAttempts_def never_done_def prelude_events_def
          run_prelude_def script_def fetches_def fetched_status_def run_status_def
          with_json_def ok_def own_def continuing_def)
  then show ?thesis by simp
qed

theorem poll_at_most_sixty_fetches_then_timeout_witness:
  "poll (JStr (ustr ''thread_1'')) (JStr (ustr ''run_1'')) (JStr (ustr ''queued'')) 0
     (never_done prelude_events) =
   (Inr (JStr (ustr ''in_progress'')),
    after_polls (GetRun (ustr ''thread_1'') (ustr ''run_1'')) 60 (never_done prelude_events))
   \<and> JStr (ustr ''in_progress'') \<noteq> JStr (ustr ''completed'')
   \<and> run_started configured hi_request (never_done []) =
       Some (JStr (ustr ''thread_1''), JStr (ustr ''run_1''), never_done prelude_events)
   \<and> fetches (effects (never_done prelude_events)
        (after_polls (GetRun (ustr ''thread_1'') (ustr ''run_1'')) 60 (never_done prelude_events))) = 60
   \<and> chat_b configured hi_request (never_done []) =
       (Reply 500 (Caught (Error (ustr ''Assistant response timeout''))),
        after_polls (GetRun (ustr ''thread_1'') (ustr ''run_1'')) 60 (never_done prelude_events))"
  using poll_at_most_sixty_fetches_then_timeout [of "never_done prelude_events" "JStr (ustr ''thread_1'')" "JStr (ustr ''run_1'')"
              "JStr (ustr ''in_progress'')"
              "after_polls (GetRun (ustr ''thread_1'') (ustr ''run_1'')) 60 (never_done prelude_events)"
              configured hi_request "never_done []"]
        never_done_started never_done_polls
  by (simp add: ustr_eq_iff)

text \<open>
  Claim C4. When the status fetched at attempt \<open>k\<close> (\<open>1 \<le> k \<le> 60\<close>, the earlier
  attempts having fetched statuses that let the loop go on) is \<open>failed\<close>,
  \<open>cancelled\<close> or \<open>expired\<close>, the wait fails at that attempt: exactly \<open>k\<close> status
  fetches are made. The error text is \<open>Run \<close>, the status, \<open>: \<close> and the upstream's
  \<open>last_error.message\<close> when that is a non-empty string, or \<open>Unknown error\<close> when it
  is missing; the handler answers with status 500 and that error.
\<close>

theorem failed_run_stops_polling_at_once:
  assumes "to_string currentThreadId = Inr t" and "to_string runId = Inr r"
    and "0 < k" and "k \<le> 60"
    and "\<forall>i<k - 1. fetched_status (upstream w (fetches (trace w) + i)) = Some (sts i)
           \<and> continuing (sts i)"
    and "upstream w (fetches (trace w) + (k - 1)) = Resp resp" and "ok resp"
    and "json resp = Some d" and "get_prop d (ustr ''status'') = Inr (JStr s)"
    and "s = ustr ''failed'' \<or> s = ustr ''cancelled'' \<or> s = ustr ''expired''"
  shows "wait_for_run currentThreadId runId w =
           (Inl (run_failure (JStr s) d), after_polls (GetRun t r) k w)
    \<and> fetches (effects w (after_polls (GetRun t r) k w)) = k
    \<and> (\<forall>m. opt_prop (opt_prop d (ustr ''last_error'')) (ustr ''message'') = JStr m \<and> m \<noteq> []
          \<longrightarrow> run_failure (JStr s) d = Error (ustr ''Run '' @ s @ ustr '': '' @ m))
    \<and> (\<not> truthy (opt_prop (opt_prop d (ustr ''last_error'')) (ustr ''message''))
          \<longrightarrow> run_failure (JStr s) d = Error (ustr ''Run '' @ s @ ustr '': Unknown error''))
    \<and> (run_started cfg body w0 = Some (currentThreadId, runId, w)
          \<longrightarrow> chat_b cfg body w0 =
                (Reply 500 (Caught (run_failure (JStr s) d)), after_polls (GetRun t r) k w))"
proof -
  let ?q = "GetRun t r"
  let ?j = "k - 1"
  let ?wj = "after_polls ?q ?j w"
  let ?st = "if ?j = 0 then JStr (ustr ''queued'') else sts (?j - 1)"
  have "poll currentThreadId runId (JStr (ustr ''queued'')) 0 w =
          poll currentThreadId runId ?st (0 + ?j) ?wj"
    using assms(1,2,4,5)
    by (intro poll_steps) (auto simp: ustr_eq_iff maxAttempts_def)
  moreover have st: "?st \<noteq> JStr (ustr ''completed'')" "?st \<noteq> JStr (ustr ''failed'')"
    using assms(5) by (auto simp: continuing_def ustr_eq_iff)
  have "poll currentThreadId runId ?st (0 + ?j) ?wj =
          (Inl (run_failure (JStr s) d), after_polls ?q (Suc 0) ?wj)"
    using assms(1,2,3,4,6,7,8,9,10) st
    by (intro poll_fail [where resp = resp])
       (auto simp: after_polls_trace(2,3) maxAttempts_def)
  moreover have "after_polls ?q (Suc 0) ?wj = after_polls ?q k w"
    using assms(3) by (simp add: after_polls_add)
  ultimately have p: "poll currentThreadId runId (JStr (ustr ''queued'')) 0 w =
      (Inl (run_failure (JStr s) d), after_polls ?q k w)"
    by simp
  then have wait: "wait_for_run currentThreadId runId w =
           (Inl (run_failure (JStr s) d), after_polls ?q k w)"
    by (simp add: wait_for_run_def)
  have le: "get_prop d (ustr ''last_error'') = Inr (opt_prop d (ustr ''last_error''))"
    using assms(9) by (rule get_prop_twice)
  have m1: "run_failure (JStr s) d = Error (ustr ''Run '' @ s @ ustr '': '' @ m)"
    if "opt_prop (opt_prop d (ustr ''last_error'')) (ustr ''message'') = JStr m \<and> m \<noteq> []" for m
    using that le by (simp add: run_failure_def andThen_def js_or_def)
  have m2: "run_failure (JStr s) d = Error (ustr ''Run '' @ s @ ustr '': Unknown error'')"
    if "\<not> truthy (opt_prop (opt_prop d (ustr ''last_error'')) (ustr ''message''))"
  proof -
    have "ustr '': Unknown error'' = ustr '': '' @ ustr ''Unknown error''"
      by (simp add: ustr_def)
    then show ?thesis
      using that le by (simp add: run_failure_def andThen_def js_or_def)
  qed
  have h: "chat_b cfg body w0 =
                (Reply 500 (Caught (run_failure (JStr s) d)), after_polls ?q k w)"
    if "run_started cfg body w0 = Some (currentThreadId, runId, w)"
    using that wait by (rule failed_wait_is_500)
  show ?thesis
    using wait m1 m2 h by (simp add: effects_after_polls fetches_polls)
qed

lemma fails_third_started:
  "run_started configured hi_request (fails_third []) =
     Some (JStr (ustr ''thread_1''), JStr (ustr ''run_1''), fails_third prelude_events)"
  by (simp add: run_started_def configured_def hi_request_def fails_third_def prelude_events_def
        run_prelude_def script_def with_json_def thenS_def resolve_thread_def add_message_def
        start_run_def fetch_def fetches_def ok_def own_def ustr_eq_iff ustr_Nil_iff Let_def)

theorem failed_run_stops_polling_at_once_witness:
  "run_started configured hi_request (fails_third []) =
     Some (JStr (ustr ''thread_1''), JStr (ustr ''run_1''), fails_third prelude_events)
   \<and> upstream (fails_third prelude_events) (fetches (trace (fails_third prelude_events)) + (3 - 1))
       = with_json rate_limited
   \<and> get_prop rate_limited (ustr ''status'') = Inr (JStr (ustr ''failed''))
   \<and> fetches (effects (fails_third prelude_events)
        (after_polls (GetRun (ustr ''thread_1'') (ustr ''run_1'')) 3 (fails_third prelude_events))) = 3
   \<and> chat_b configured hi_request (fails_third []) =
       (Reply 500 (Caught (Error (ustr ''Run failed: Rate limit exceeded''))),
        after_polls (GetRun (ustr ''thread_1'') (ustr ''run_1'')) 3 (fails_third prelude_events))"
proof -
  let ?sts = "\<lambda>i::nat. if i = 0 then JStr (ustr ''queued'') else JStr (ustr ''in_progress'')"
  have sts: "\<forall>i<3 - 1. fetched_status
                (upstream (fails_third prelude_events)
                   (fetches (trace (fails_third prelude_events)) + i)) = Some (?sts i)
              \<and> continuing (?sts i)"
  proof (intro allI impI)
    fix i :: nat assume "i < 3 - 1"
    then have "i = 0 \<or> i = 1" by auto
    then show "fetched_status
                (upstream (fails_third prelude_events)
                   (fetches (trace (fails_third prelude_events)) + i)) = Some (?sts i)
              \<and> continuing (?sts i)"
      by (auto simp: fails_third_def prelude_events_def run_prelude_def script_def fetches_def
            fetched_status_def run_status_def with_json_def ok_def own_def continuing_def
            ustr_eq_iff)
  qed
  have up: "upstream (fails_third prelude_events)
              (fetches (trace (fails_third prelude_events)) + (3 - 1)) =
            Resp \<lparr>status = 200, json = Some rate_limited\<rparr>"
    by (simp add: fails_third_def prelude_events_def run_prelude_def script_def fetches_def
          with_json_def)
  have st: "get_prop rate_limited (ustr ''status'') = Inr (JStr (ustr ''failed''))"
    by (simp add: rate_limited_def own_def)
  have msg: "opt_prop (opt_prop rate_limited (ustr ''last_error'')) (ustr ''message'') =
          JStr (ustr ''Rate limit exceeded'') \<and> ustr ''Rate limit exceeded'' \<noteq> []"
    by (simp add: rate_limited_def own_def ustr_eq_iff ustr_Nil_iff)
  have cat: "ustr ''Run '' @ ustr ''failed'' @ ustr '': '' @ ustr ''Rate limit exceeded'' =
         ustr ''Run failed: Rate limit exceeded''"
    by (simp add: ustr_def)
  show ?thesis
    using failed_run_stops_polling_at_once [of "JStr (ustr ''thread_1'')" "ustr ''thread_1''" "JStr (ustr ''run_1'')"
                "ustr ''run_1''" 3 "fails_third prelude_events" ?sts
                "\<lparr>status = 200, json = Some rate_limited\<rparr>" rate_limited "ustr ''failed''"
                configured hi_request "fails_third []", OF _ _ _ _ sts up _ _ st]
          fails_third_started msg cat up st
    by (simp add: ok_def with_json_def)
qed

section \<open>Variant B: the text of the reply\<close>

lemma skip_marker_None: "(skip_marker cs = None) = (rbracket \<notin> set cs)"
  by (induction cs) auto

lemma skip_marker_Some:
  "skip_marker cs = Some rest \<Longrightarrow> \<exists>m. cs = m @ rbracket # rest \<and> rbracket \<notin> set m"
proof (induction cs)
  case Nil
  then show ?case by simp
next
  case (Cons c cs)
  show ?case
  proof (cases "c = rbracket")
    case True
    then show ?thesis using Cons.prems by (intro exI [of _ "[]"]) simp
  next
    case False
    then obtain m where "cs = m @ rbracket # rest" "rbracket \<notin> set m"
      using Cons by auto
    then show ?thesis using False by (intro exI [of _ "c # m"]) simp
  qed
qed

lemma skip_marker_append:
  "rbracket \<notin> set m \<Longrightarrow> skip_marker (m @ rbracket # rest) = Some rest"
  by (induction m) auto

lemma set_strip_citations: "set (strip_citations s) \<subseteq> set s"
proof (induction s rule: strip_citations.induct)
  case 1
  then show ?case by simp
next
  case (2 c cs)
  show ?case
  proof (cases "c = lbracket")
    case True
    show ?thesis
    proof (cases "skip_marker cs")
      case None
      then show ?thesis using 2 True by auto
    next
      case (Some rest)
      then have "set rest \<subseteq> set cs" using skip_marker_Some [OF Some] by auto
      then show ?thesis using 2(2) [OF True Some] True Some by auto
    qed
  next
    case False
    then show ?thesis using 2 by auto
  qed
qed

lemma brackets_differ: "lbracket \<noteq> rbracket"
  by (simp add: lbracket_def rbracket_def)

lemma no_marker_left:
  "strip_citations s = a @ lbracket # b \<Longrightarrow> rbracket \<notin> set b"
proof (induction s arbitrary: a b rule: strip_citations.induct)
  case 1
  then show ?case by simp
next
  case (2 c cs)
  show ?case
  proof (cases "c = lbracket")
    case True
    show ?thesis
    proof (cases "skip_marker cs")
      case None
      then have "rbracket \<notin> set cs" by (simp add: skip_marker_None)
      then have "rbracket \<notin> set (strip_citations cs)" using set_strip_citations by blast
      moreover have "strip_citations (c # cs) = lbracket # strip_citations cs"
        using True None by simp
      then have "set b \<subseteq> set (strip_citations cs)"
        using 2(4) by (cases a) auto
      ultimately show ?thesis by blast
    next
      case (Some rest)
      then have "strip_citations rest = a @ lbracket # b" using 2(4) True by simp
      then show ?thesis using 2(2) [OF True Some] by blast
    qed
  next
    case False
    then have eq: "c # strip_citations cs = a @ lbracket # b" using 2(4) by simp
    then obtain a' where "a = c # a'" using False by (cases a) auto
    then have "strip_citations cs = a' @ lbracket # b" using eq by simp
    then show ?thesis using 2(3) [OF False] by blast
  qed
qed

lemma strip_prefix: "lbracket \<notin> set a \<Longrightarrow> strip_citations (a @ s) = a @ strip_citations s"
  by (induction a) auto

lemma strip_marker:
  "rbracket \<notin> set m \<Longrightarrow> strip_citations (lbracket # m @ rbracket # b) = strip_citations b"
  by (simp add: skip_marker_append)

lemma js_join_strings: "js_join [0x0A] (map JStr vs) = Inr (join_lines vs)"
  by (induction vs rule: join_lines.induct) simp_all

lemma newline: "ustr [CHR 0x0A] = [0x0A]"
  by (simp add: ustr_def)

lemma text_segments_filter:
  "\<forall>c\<in>set segs. c \<noteq> JUndefined \<and> c \<noteq> JNull \<Longrightarrow>
   text_segments segs = Inr (filter is_text_segment segs)"
proof (induction segs)
  case Nil
  then show ?case by simp
next
  case (Cons c segs)
  then have "get_prop c (ustr ''type'') = Inr (opt_prop c (ustr ''type''))"
    by (cases c) auto
  then show ?case using Cons by (simp add: is_text_segment_def)
qed

lemma segment_value_text:
  "c \<noteq> JUndefined \<Longrightarrow> c \<noteq> JNull \<Longrightarrow> segment_text c = JStr v \<Longrightarrow> segment_value c = Inr (JStr v)"
  by (cases c; cases "opt_prop c (ustr ''text'')")
     (auto simp: segment_value_def segment_text_def andThen_def)

lemma mapM_segment_value:
  "\<forall>c\<in>set kept. c \<noteq> JUndefined \<and> c \<noteq> JNull \<Longrightarrow> map segment_text kept = map JStr vs
   \<Longrightarrow> mapM segment_value kept = Inr (map JStr vs)"
proof (induction kept arbitrary: vs)
  case Nil
  then show ?case by simp
next
  case (Cons c kept)
  then obtain v vs' where vs: "vs = v # vs'" "segment_text c = JStr v"
      "map segment_text kept = map JStr vs'"
    by (cases vs) auto
  then show ?case
    using Cons.prems(1) Cons.IH [of vs'] by (simp add: segment_value_text)
qed

lemma strip_without_bracket: "lbracket \<notin> set s \<Longrightarrow> strip_citations s = s"
  using strip_prefix [of s "[]"] by simp

lemma strip_unclosed:
  "lbracket \<notin> set a \<Longrightarrow> rbracket \<notin> set b \<Longrightarrow>
   strip_citations (a @ lbracket # b) = a @ lbracket # b"
proof -
  assume a: "lbracket \<notin> set a" and b: "rbracket \<notin> set b"
  have keep: "strip_citations t = t" if "rbracket \<notin> set t" for t
    using that
  proof (induction t)
    case Nil
    then show ?case by simp
  next
    case (Cons c t)
    then have "skip_marker t = None" by (simp add: skip_marker_None)
    then show ?case using Cons by simp
  qed
  have "rbracket \<notin> set (lbracket # b)" using b brackets_differ by auto
  then have "strip_citations (lbracket # b) = lbracket # b" by (rule keep)
  moreover have "strip_citations (a @ lbracket # b) = a @ strip_citations (lbracket # b)"
    using a by (rule strip_prefix)
  ultimately show ?thesis by simp
qed

text \<open>
  Three equations say what the stripping does to every text: a text without an opening
  bracket is unchanged; a text whose first opening bracket has no closing bracket after it
  is unchanged; a text whose first opening bracket has a closing bracket after it loses
  the marker up to the first such closing bracket, and the rest is stripped in the same
  way. No other function satisfies the three.
\<close>

lemma strip_citations_unique:
  assumes plain: "\<And>s. lbracket \<notin> set s \<Longrightarrow> f s = s"
    and unclosed: "\<And>a b. lbracket \<notin> set a \<Longrightarrow> rbracket \<notin> set b
                     \<Longrightarrow> f (a @ lbracket # b) = a @ lbracket # b"
    and marker: "\<And>a m b. lbracket \<notin> set a \<Longrightarrow> rbracket \<notin> set m
                     \<Longrightarrow> f (a @ lbracket # m @ rbracket # b) = a @ f b"
  shows "f t = strip_citations t"
proof (induction t rule: length_induct)
  case (1 t)
  show ?case
  proof (cases "lbracket \<in> set t")
    case False
    then show ?thesis by (simp add: plain strip_without_bracket)
  next
    case True
    then obtain a rest where t: "t = a @ lbracket # rest" and a: "lbracket \<notin> set a"
      by (auto dest: split_list_first)
    show ?thesis
    proof (cases "rbracket \<in> set rest")
      case False
      then show ?thesis using t a by (simp add: unclosed strip_unclosed)
    next
      case True
      then obtain m b where rest: "rest = m @ rbracket # b" and m: "rbracket \<notin> set m"
        by (auto dest: split_list_first)
      have "length b < length t" using t rest by simp
      then have "f b = strip_citations b" using 1 by blast
      moreover have "f t = a @ f b" using t rest a m by (simp add: marker)
      moreover have "strip_citations t = a @ strip_citations b"
        using t rest a m by (simp add: strip_prefix skip_marker_append)
      ultimately show ?thesis by simp
    qed
  qed
qed

text \<open>
  Claim C7. For an assistant message whose content is an array of segments, the reply text
  is the \<open>text.value\<close> strings of the segments of type \<open>text\<close>, in order, joined by
  newlines, with the citation markers stripped; when the joined text has no opening
  bracket, the reply is the joined text itself. Stripping removes the markers and nothing
  else: a text without an opening bracket is unchanged; an opening bracket with no closing
  bracket after it stays, with all that follows it; a marker (opening bracket, code units
  other than the closing bracket, closing bracket) is removed, the text before it is kept
  and the text after it is stripped in the same way. After stripping, no opening bracket
  is followed by a closing bracket, so no marker is left. The text
  \<open>Paris is the capital\<close>, marker, full stop becomes \<open>Paris is the capital.\<close>
\<close>

theorem text_joined_and_citations_stripped:
  "(get_prop assistantMessage (ustr ''content'') = Inr (JArr segments)
      \<and> (\<forall>c\<in>set segments. c \<noteq> JUndefined \<and> c \<noteq> JNull)
      \<and> map segment_text (filter is_text_segment segments) = map JStr vs
    \<longrightarrow> response_text assistantMessage = Inr (strip_citations (join_lines vs))
        \<and> (lbracket \<notin> set (join_lines vs)
             \<longrightarrow> response_text assistantMessage = Inr (join_lines vs)))
   \<and> (lbracket \<notin> set s \<longrightarrow> strip_citations s = s)
   \<and> (\<forall>a b. lbracket \<notin> set a \<and> rbracket \<notin> set b
         \<longrightarrow> strip_citations (a @ lbracket # b) = a @ lbracket # b)
   \<and> (\<forall>a m b. lbracket \<notin> set a \<and> rbracket \<notin> set m
         \<longrightarrow> strip_citations (a @ lbracket # m @ rbracket # b) = a @ strip_citations b)
   \<and> (\<forall>a b. strip_citations s = a @ lbracket # b \<longrightarrow> rbracket \<notin> set b)
   \<and> strip_citations paris = ustr ''Paris is the capital.''"
proof (intro conjI impI allI)
  assume a: "get_prop assistantMessage (ustr ''content'') = Inr (JArr segments)
      \<and> (\<forall>c\<in>set segments. c \<noteq> JUndefined \<and> c \<noteq> JNull)
      \<and> map segment_text (filter is_text_segment segments) = map JStr vs"
  then have "mapM segment_value (filter is_text_segment segments) = Inr (map JStr vs)"
    by (intro mapM_segment_value) auto
  then show r: "response_text assistantMessage = Inr (strip_citations (join_lines vs))"
    using a by (simp add: response_text_def andThen_def text_segments_filter newline js_join_strings)
  assume "lbracket \<notin> set (join_lines vs)"
  then show "response_text assistantMessage = Inr (join_lines vs)"
    using r by (simp add: strip_without_bracket)
next
  assume "lbracket \<notin> set s"
  then show "strip_citations s = s" by (rule strip_without_bracket)
next
  fix a b assume "lbracket \<notin> set a \<and> rbracket \<notin> set b"
  then show "strip_citations (a @ lbracket # b) = a @ lbracket # b"
    by (simp add: strip_unclosed)
next
  fix a m b assume "lbracket \<notin> set a \<and> rbracket \<notin> set m"
  then show "strip_citations (a @ lbracket # m @ rbracket # b) = a @ strip_citations b"
    by (simp add: strip_prefix skip_marker_append)
next
  fix a b assume "strip_citations s = a @ lbracket # b"
  then show "rbracket \<notin> set b" by (rule no_marker_left)
next
  show "strip_citations paris = ustr ''Paris is the capital.''"
    by (simp add: paris_def ustr_def lbracket_def rbracket_def)
qed

theorem text_joined_and_citations_stripped_witness:
  "get_prop paris_message (ustr ''content'') =
     Inr (JArr [JObj [(ustr ''type'', JStr (ustr ''text'')),
                      (ustr ''text'', JObj [(ustr ''value'', JStr paris)])]])
   \<and> response_text paris_message = Inr (ustr ''Paris is the capital.'')
   \<and> map segment_text (filter is_text_segment two_segments) = map JStr [ustr ''one'', paris]
   \<and> response_text (JObj [(ustr ''content'', JArr two_segments)]) =
        Inr (ustr ''one'' @ [0x0A] @ ustr ''Paris is the capital.'')
   \<and> map segment_text (filter is_text_segment plain_segments) =
        map JStr [ustr ''one'', ustr ''two'']
   \<and> lbracket \<notin> set (join_lines [ustr ''one'', ustr ''two''])
   \<and> response_text (JObj [(ustr ''content'', JArr plain_segments)]) =
        Inr (ustr ''one'' @ [0x0A] @ ustr ''two'')
   \<and> strip_citations (ustr ''ab'' @ lbracket # ustr ''cd'') = ustr ''ab'' @ lbracket # ustr ''cd''
   \<and> strip_citations (ustr ''ab'' @ lbracket # ustr ''4:0'' @ rbracket # ustr ''cd'') = ustr ''abcd''"
proof -
  note first = text_joined_and_citations_stripped [of paris_message
      "[JObj [(ustr ''type'', JStr (ustr ''text'')),
              (ustr ''text'', JObj [(ustr ''value'', JStr paris)])]]" "[paris]" "ustr ''cd''"]
  note second = text_joined_and_citations_stripped
      [of "JObj [(ustr ''content'', JArr two_segments)]" two_segments
          "[ustr ''one'', paris]" "[]"]
  note third = text_joined_and_citations_stripped
      [of "JObj [(ustr ''content'', JArr plain_segments)]" plain_segments
          "[ustr ''one'', ustr ''two'']" "[]"]
  have content: "get_prop paris_message (ustr ''content'') =
     Inr (JArr [JObj [(ustr ''type'', JStr (ustr ''text'')),
                      (ustr ''text'', JObj [(ustr ''value'', JStr paris)])]])"
    by (simp add: paris_message_def own_def ustr_eq_iff)
  have stripped: "strip_citations paris = ustr ''Paris is the capital.''"
    using first by simp
  have one: "response_text paris_message = Inr (strip_citations (join_lines [paris]))"
    using first content
    by (simp add: own_def ustr_eq_iff is_text_segment_def segment_text_def)
  have texts: "map segment_text (filter is_text_segment two_segments) =
                 map JStr [ustr ''one'', paris]"
    by (simp add: two_segments_def own_def ustr_eq_iff is_text_segment_def segment_text_def)
  have two: "response_text (JObj [(ustr ''content'', JArr two_segments)]) =
               Inr (strip_citations (join_lines [ustr ''one'', paris]))"
    using second texts by (simp add: own_def two_segments_def)
  have "lbracket \<notin> set (ustr ''one'' @ [0x0A])"
    by (simp add: ustr_def lbracket_def)
  then have prefix: "strip_citations ((ustr ''one'' @ [0x0A]) @ paris) =
               (ustr ''one'' @ [0x0A]) @ strip_citations paris"
    by (rule strip_prefix)
  have plain_texts: "map segment_text (filter is_text_segment plain_segments) =
                 map JStr [ustr ''one'', ustr ''two'']"
    by (simp add: plain_segments_def own_def ustr_eq_iff is_text_segment_def segment_text_def)
  have no_bracket: "lbracket \<notin> set (join_lines [ustr ''one'', ustr ''two''])"
    by (simp add: ustr_def lbracket_def)
  have "get_prop (JObj [(ustr ''content'', JArr plain_segments)]) (ustr ''content'') =
          Inr (JArr plain_segments)
        \<and> (\<forall>c\<in>set plain_segments. c \<noteq> JUndefined \<and> c \<noteq> JNull)
        \<and> map segment_text (filter is_text_segment plain_segments) =
            map JStr [ustr ''one'', ustr ''two'']"
    using plain_texts by (simp add: own_def plain_segments_def)
  note both = third [THEN conjunct1, THEN mp, OF this]
  have plain: "response_text (JObj [(ustr ''content'', JArr plain_segments)]) =
               Inr (join_lines [ustr ''one'', ustr ''two''])"
    using both [THEN conjunct2, THEN mp, OF no_bracket] .
  have ab: "lbracket \<notin> set (ustr ''ab'')" "rbracket \<notin> set (ustr ''cd'')"
      "rbracket \<notin> set (ustr ''4:0'')" "lbracket \<notin> set (ustr ''cd'')"
    by (simp_all add: ustr_def lbracket_def rbracket_def)
  have unclosed: "strip_citations (ustr ''ab'' @ lbracket # ustr ''cd'') =
                    ustr ''ab'' @ lbracket # ustr ''cd''"
    using first ab by blast
  have cd: "strip_citations (ustr ''cd'') = ustr ''cd''"
    using first ab(4) by blast
  have "strip_citations (ustr ''ab'' @ lbracket # ustr ''4:0'' @ rbracket # ustr ''cd'') =
          ustr ''ab'' @ strip_citations (ustr ''cd'')"
    using first ab by blast
  then have marker: "strip_citations (ustr ''ab'' @ lbracket # ustr ''4:0'' @ rbracket # ustr ''cd'') =
          ustr ''abcd''"
    using cd by (simp add: ustr_def)
  show ?thesis
    using content one two texts stripped prefix plain_texts no_bracket plain unclosed marker
    by simp
qed

section \<open>Variant B: thread resolution\<close>

lemma quietI: "trace w' = trace w @ evs \<Longrightarrow> create_calls evs = 0 \<Longrightarrow> quiet w w'"
  by (simp add: quiet_def effects_def)

lemma quietD: "quiet w w' \<Longrightarrow> \<exists>evs. trace w' = trace w @ evs \<and> create_calls evs = 0"
  unfolding quiet_def effects_def
  by (metis append_take_drop_id)

lemma quiet_refl: "quiet w w"
  by (rule quietI [of _ _ "[]"]) (simp_all add: create_calls_def)

lemma quiet_trans: "quiet w w1 \<Longrightarrow> quiet w1 w2 \<Longrightarrow> quiet w w2"
proof -
  assume "quiet w w1" "quiet w1 w2"
  then obtain e1 e2 where "trace w1 = trace w @ e1" "create_calls e1 = 0"
      "trace w2 = trace w1 @ e2" "create_calls e2 = 0"
    by (blast dest: quietD)
  then show ?thesis by (intro quietI [of _ _ "e1 @ e2"]) (simp_all add: create_calls_def)
qed

lemma thenS_cases:
  assumes "thenS m f = (res, w')"
  obtains (fails) e where "m = (Inl e, w')" and "res = Inl e"
  | (goes_on) x w1 where "m = (Inr x, w1)" and "f x w1 = (res, w')"
  using assms by (cases m; cases "fst m") (auto simp: thenS_def)

lemma quiet_fetch: "fetch rq w = (r, w') \<Longrightarrow> rq \<noteq> CreateThread \<Longrightarrow> quiet w w'"
  by (rule quietI [of _ _ "[Fetch rq (upstream w (fetches (trace w)))]"])
     (cases rq; auto simp: fetch_def Let_def create_calls_def)+

lemma add_message_quiet: "quiet w (snd (add_message cur message w))"
  by (auto simp: add_message_def quiet_refl intro: quiet_fetch
        split: sum.splits prod.splits fetch_result.splits option.splits)

lemma start_run_quiet: "quiet w (snd (start_run aid cur w))"
  by (auto simp: start_run_def quiet_refl intro: quiet_fetch
        split: sum.splits prod.splits fetch_result.splits option.splits)

lemma fetch_messages_quiet: "quiet w (snd (fetch_messages cur w))"
  by (auto simp: fetch_messages_def quiet_refl intro: quiet_fetch
        split: sum.splits prod.splits fetch_result.splits option.splits)

lemma poll_events_quiet: "list_all is_poll_event evs \<Longrightarrow> create_calls evs = 0"
proof (induction evs)
  case Nil
  then show ?case by (simp add: create_calls_def)
next
  case (Cons e evs)
  then have "\<not> is_create_thread e" by (cases e rule: is_poll_event.cases) auto
  then show ?case using Cons by (simp add: create_calls_def)
qed

lemma wait_quiet: "quiet w (snd (wait_for_run cur rid w))"
  using poll_trace [of cur rid "JStr (ustr ''queued'')" 0 w]
  by (auto simp: wait_world intro: quietI poll_events_quiet)

lemma chat_b_thread_fails:
  assumes "get_prop body (ustr ''message'') = Inr (JStr m)" and "m \<noteq> []"
    and "get_prop body (ustr ''threadId'') = Inr threadId"
    and "assistant_id cfg = Some aid" and "aid \<noteq> []"
    and "resolve_thread threadId w = (Inl e, w1)"
  shows "chat_b cfg body w = (Reply 500 (Caught e), w1)"
  using assms by (simp add: chat_b_def chat_b_try_def andThen_def thenS_def)

lemma chat_b_after_thread:
  assumes "get_prop body (ustr ''message'') = Inr (JStr m)" and "m \<noteq> []"
    and "get_prop body (ustr ''threadId'') = Inr threadId"
    and "assistant_id cfg = Some aid" and "aid \<noteq> []"
    and "resolve_thread threadId w = (Inr cur, w1)"
  shows "quiet w1 (snd (chat_b cfg body w))
     \<and> (\<forall>i. threadId_of (payload (fst (chat_b cfg body w))) = Some i \<longrightarrow> i = cur)"
proof -
  obtain r2 w2 where s2: "add_message cur (JStr m) w1 = (r2, w2)" by (cases "add_message cur (JStr m) w1")
  have q2: "quiet w1 w2" using add_message_quiet [of w1 cur "JStr m"] s2 by simp
  show ?thesis
  proof (cases r2)
    case (Inl e)
    then have "chat_b cfg body w = (Reply 500 (Caught e), w2)"
      using assms s2 by (simp add: chat_b_def chat_b_try_def andThen_def thenS_def)
    then show ?thesis using q2 by simp
  next
    case u: (Inr u)
    obtain r3 w3 where s3: "start_run aid cur w2 = (r3, w3)" by (cases "start_run aid cur w2")
    have q3: "quiet w1 w3"
      using start_run_quiet [of w2 aid cur] s3 q2 by (auto intro: quiet_trans)
    show ?thesis
    proof (cases r3)
      case (Inl e)
      then have "chat_b cfg body w = (Reply 500 (Caught e), w3)"
        using assms s2 u s3 by (simp add: chat_b_def chat_b_try_def andThen_def thenS_def)
      then show ?thesis using q3 by simp
    next
      case rid: (Inr runId)
      obtain r4 w4 where s4: "wait_for_run cur runId w3 = (r4, w4)"
        by (cases "wait_for_run cur runId w3")
      have q4: "quiet w1 w4"
        using wait_quiet [of w3 cur runId] s4 q3 by (auto intro: quiet_trans)
      show ?thesis
      proof (cases r4)
        case (Inl e)
        then have "chat_b cfg body w = (Reply 500 (Caught e), w4)"
          using assms s2 u s3 rid s4
          by (simp add: chat_b_def chat_b_try_def andThen_def thenS_def)
        then show ?thesis using q4 by simp
      next
        case u4: (Inr u4)
        obtain r5 w5 where s5: "fetch_messages cur w4 = (r5, w5)"
          by (cases "fetch_messages cur w4")
        have q5: "quiet w1 w5"
          using fetch_messages_quiet [of w4 cur] s5 q4 by (auto intro: quiet_trans)
        show ?thesis
        proof (cases r5)
          case (Inl e)
          then have "chat_b cfg body w = (Reply 500 (Caught e), w5)"
            using assms s2 u s3 rid s4 u4 s5
            by (simp add: chat_b_def chat_b_try_def andThen_def thenS_def)
          then show ?thesis using q5 by simp
        next
          case am: (Inr assistantMessage)
          have "chat_b cfg body w =
                  (case response_text assistantMessage of
                     Inl e \<Rightarrow> Reply 500 (Caught e)
                   | Inr responseText \<Rightarrow> Reply 200 (ChatB responseText cur runId), w5)"
            using assms s2 u s3 rid s4 u4 s5 am
            by (simp add: chat_b_def chat_b_try_def andThen_def thenS_def split: sum.splits)
          then show ?thesis using q5 by (simp split: sum.splits)
        qed
      qed
    qed
  qed
qed

lemma resolve_given:
  "truthy threadId \<Longrightarrow> resolve_thread threadId w = (Inr threadId, w)"
  by (simp add: resolve_thread_def)

lemma resolve_fresh:
  assumes "\<not> truthy threadId" and "resolve_thread threadId w = (res, w1)"
  shows "trace w1 = trace w @ [Fetch CreateThread (upstream w (fetches (trace w)))]
     \<and> (\<forall>i. res = Inr i \<longrightarrow>
          (\<exists>resp d. upstream w (fetches (trace w)) = Resp resp \<and> ok resp
              \<and> json resp = Some d \<and> get_prop d (ustr ''id'') = Inr i))"
  using assms
  by (auto simp: resolve_thread_def fetch_def Let_def
        split: fetch_result.splits if_splits option.splits)

lemma effects_Cons:
  assumes "trace w1 = trace w @ [e]" and "quiet w1 w2"
  shows "\<exists>evs. effects w w2 = e # evs \<and> create_calls evs = 0"
proof -
  obtain evs where "trace w2 = trace w1 @ evs" "create_calls evs = 0"
    using assms(2) by (blast dest: quietD)
  then show ?thesis using assms(1) by (simp add: effects_def)
qed

lemma fresh_thread:
  assumes "get_prop body (ustr ''message'') = Inr (JStr m)" and "m \<noteq> []"
    and "get_prop body (ustr ''threadId'') = Inr threadId"
    and "assistant_id cfg = Some aid" and "aid \<noteq> []"
    and "\<not> truthy threadId"
  shows "(\<exists>evs. effects w (snd (chat_b cfg body w)) =
                 Fetch CreateThread (upstream w (fetches (trace w))) # evs
              \<and> create_calls evs = 0)
     \<and> (\<forall>i. threadId_of (payload (fst (chat_b cfg body w))) = Some i \<longrightarrow>
          (\<exists>resp d. upstream w (fetches (trace w)) = Resp resp \<and> ok resp
              \<and> json resp = Some d \<and> get_prop d (ustr ''id'') = Inr i))"
proof -
  obtain res w1 where r: "resolve_thread threadId w = (res, w1)"
    by (cases "resolve_thread threadId w")
  note fresh = resolve_fresh [OF assms(6) r]
  show ?thesis
  proof (cases res)
    case (Inl e)
    then have "chat_b cfg body w = (Reply 500 (Caught e), w1)"
      using chat_b_thread_fails [OF assms(1-5)] r by simp
    then show ?thesis
      using fresh effects_Cons [of w1 w _ w1] by (simp add: quiet_refl)
  next
    case (Inr cur)
    then have "quiet w1 (snd (chat_b cfg body w))
       \<and> (\<forall>i. threadId_of (payload (fst (chat_b cfg body w))) = Some i \<longrightarrow> i = cur)"
      using chat_b_after_thread [OF assms(1-5)] r by simp
    then show ?thesis
      using fresh Inr effects_Cons [of w1 w _ "snd (chat_b cfg body w)"] by auto
  qed
qed

text \<open>
  Claim C6, amended. For a valid request to a configured server: when the supplied
  \<open>threadId\<close> is truthy (any non-empty string), no \<open>create thread\<close> call is issued and
  a reply that carries a \<open>threadId\<close> carries the supplied one; when the request has no
  \<open>threadId\<close>, exactly one \<open>create thread\<close> call is issued, it is the first call, and
  a reply that carries a \<open>threadId\<close> carries the \<open>id\<close> which that call returned.
\<close>

theorem thread_reused_when_truthy_created_when_absent:
  assumes "get_prop body (ustr ''message'') = Inr (JStr m)" and "m \<noteq> []"
    and "get_prop body (ustr ''threadId'') = Inr threadId"
    and "assistant_id cfg = Some aid" and "aid \<noteq> []"
  shows "(truthy threadId \<longrightarrow>
            create_calls (effects w (snd (chat_b cfg body w))) = 0
          \<and> (\<forall>i. threadId_of (payload (fst (chat_b cfg body w))) = Some i \<longrightarrow> i = threadId))
     \<and> (threadId = JUndefined \<longrightarrow>
            create_calls (effects w (snd (chat_b cfg body w))) = 1
          \<and> (\<exists>evs. effects w (snd (chat_b cfg body w)) =
                 Fetch CreateThread (upstream w (fetches (trace w))) # evs)
          \<and> (\<forall>i. threadId_of (payload (fst (chat_b cfg body w))) = Some i \<longrightarrow>
               (\<exists>resp d. upstream w (fetches (trace w)) = Resp resp \<and> ok resp
                  \<and> json resp = Some d \<and> get_prop d (ustr ''id'') = Inr i)))"
proof (intro conjI impI)
  assume t: "truthy threadId"
  have "quiet w (snd (chat_b cfg body w))
     \<and> (\<forall>i. threadId_of (payload (fst (chat_b cfg body w))) = Some i \<longrightarrow> i = threadId)"
    using chat_b_after_thread [OF assms resolve_given [OF t]] .
  then show "create_calls (effects w (snd (chat_b cfg body w))) = 0"
    and "\<forall>i. threadId_of (payload (fst (chat_b cfg body w))) = Some i \<longrightarrow> i = threadId"
    by (simp_all add: quiet_def)
next
  assume u: "threadId = JUndefined"
  then have f: "\<not> truthy threadId" by simp
  note fresh = fresh_thread [OF assms f, of w]
  then obtain evs where evs: "effects w (snd (chat_b cfg body w)) =
                 Fetch CreateThread (upstream w (fetches (trace w))) # evs"
      "create_calls evs = 0"
    by blast
  then show "create_calls (effects w (snd (chat_b cfg body w))) = 1"
    by (simp add: create_calls_def)
  show "\<exists>evs. effects w (snd (chat_b cfg body w)) =
                 Fetch CreateThread (upstream w (fetches (trace w))) # evs"
    using evs(1) by blast
  show "\<forall>i. threadId_of (payload (fst (chat_b cfg body w))) = Some i \<longrightarrow>
               (\<exists>resp d. upstream w (fetches (trace w)) = Resp resp \<and> ok resp
                  \<and> json resp = Some d \<and> get_prop d (ustr ''id'') = Inr i)"
    using fresh by blast
qed

text \<open>
  Claim C10. A supplied \<open>threadId\<close> that is falsy (the empty string, \<open>null\<close>,
  \<open>false\<close>, 0) is treated as absent: exactly one \<open>create thread\<close> call is issued, as
  the first call, and a reply that carries a \<open>threadId\<close> carries the \<open>id\<close> which
  that call returned.
\<close>

theorem falsy_threadId_treated_as_absent:
  assumes "get_prop body (ustr ''message'') = Inr (JStr m)" and "m \<noteq> []"
    and "get_prop body (ustr ''threadId'') = Inr threadId"
    and "assistant_id cfg = Some aid" and "aid \<noteq> []"
    and "\<not> truthy threadId"
  shows "create_calls (effects w (snd (chat_b cfg body w))) = 1
     \<and> (\<exists>evs. effects w (snd (chat_b cfg body w)) =
                 Fetch CreateThread (upstream w (fetches (trace w))) # evs)
     \<and> (\<forall>i. threadId_of (payload (fst (chat_b cfg body w))) = Some i \<longrightarrow>
          (\<exists>resp d. upstream w (fetches (trace w)) = Resp resp \<and> ok resp
              \<and> json resp = Some d \<and> get_prop d (ustr ''id'') = Inr i))"
proof -
  note fresh = fresh_thread [OF assms, of w]
  then obtain evs where evs: "effects w (snd (chat_b cfg body w)) =
                 Fetch CreateThread (upstream w (fetches (trace w))) # evs"
      "create_calls evs = 0"
    by blast
  then have "create_calls (effects w (snd (chat_b cfg body w))) = 1"
    by (simp add: create_calls_def)
  then show ?thesis using evs(1) fresh by blast
qed

lemma chat_b_completed:
  assumes "run_started cfg body w0 = Some (cur, rid, w)"
    and "wait_for_run cur rid w = (Inr (), w1)"
    and "fetch_messages cur w1 = (Inr am, w2)"
    and "response_text am = Inr text"
  shows "chat_b cfg body w0 = (Reply 200 (ChatB text cur rid), w2)"
  using assms
  by (auto simp: run_started_def chat_b_def chat_b_try_def thenS_def andThen_def
        split: sum.splits option.splits if_splits prod.splits)

lemma happy_upstream:
  "fetches evs = length first \<Longrightarrow>
   upstream (happy first evs) (fetches (trace (happy first evs)) + i) =
     (if i = 0 then run_status ''queued'' else if i = 1 then run_status ''in_progress''
      else if i = 2 then run_status ''in_progress'' else if i = 3 then run_status ''completed''
      else message_list)"
  by (auto simp: happy_def script_def nth_append nth_Cons split: nat.splits)

lemma fetched_run_status: "fetched_status (run_status s) = Some (JStr (ustr s))"
  by (simp add: fetched_status_def run_status_def with_json_def ok_def own_def)

lemma happy_wait:
  assumes "fetches evs = length first"
  shows "wait_for_run (JStr t) (JStr r) (happy first evs) =
           (Inr (), after_polls (GetRun t r) 4 (happy first evs))"
proof -
  let ?sts = "\<lambda>i::nat. if i = 0 then JStr (ustr ''queued'') else JStr (ustr ''in_progress'')"
  have "poll (JStr t) (JStr r) (JStr (ustr ''queued'')) 0 (happy first evs) =
          (Inr (JStr (ustr ''completed'')), after_polls (GetRun t r) (Suc 3) (happy first evs))"
    by (rule poll_completes [where sts = ?sts])
       (auto simp: happy_upstream [OF assms] fetched_run_status continuing_def ustr_eq_iff
          maxAttempts_def)
  then show ?thesis by (simp add: wait_for_run_def)
qed

lemma paris_reply: "response_text paris_message = Inr (ustr ''Paris is the capital.'')"
  by (simp add: response_text_def paris_message_def paris_def andThen_def own_def ustr_eq_iff
        segment_value_def lbracket_def rbracket_def)
     (simp add: ustr_def lbracket_def rbracket_def)

lemma happy_messages:
  assumes "fetches evs = length first"
  shows "fst (fetch_messages (JStr t) (after_polls q 4 (happy first evs))) = Inr paris_message"
proof -
  have "upstream (after_polls q 4 (happy first evs))
          (fetches (trace (after_polls q 4 (happy first evs)))) = message_list"
    using happy_upstream [OF assms, of 4] by (simp add: after_polls_trace(2,3))
  then show ?thesis
    by (simp add: fetch_messages_def fetch_def Let_def message_list_def with_json_def ok_def
          andThen_def own_def paris_message_def ustr_eq_iff)
qed

lemma happy_reply:
  assumes "run_started cfg body w0 = Some (JStr t, JStr r, happy first evs)"
    and "fetches evs = length first"
  shows "fst (chat_b cfg body w0) =
           Reply 200 (ChatB (ustr ''Paris is the capital.'') (JStr t) (JStr r))"
proof -
  obtain w2 where "fetch_messages (JStr t) (after_polls (GetRun t r) 4 (happy first evs)) =
      (Inr paris_message, w2)"
    using happy_messages [OF assms(2), of t "GetRun t r"]
    by (cases "fetch_messages (JStr t) (after_polls (GetRun t r) 4 (happy first evs))") auto
  then show ?thesis
    using chat_b_completed [OF assms(1) happy_wait [OF assms(2)] _ paris_reply] by simp
qed

lemma hi_started:
  "run_started configured hi_request (happy run_prelude []) =
     Some (JStr (ustr ''thread_1''), JStr (ustr ''run_1''), happy run_prelude prelude_events)"
  by (simp add: run_started_def configured_def hi_request_def happy_def prelude_events_def
        run_prelude_def script_def with_json_def thenS_def resolve_thread_def add_message_def
        start_run_def fetch_def fetches_def ok_def own_def ustr_eq_iff ustr_Nil_iff Let_def)

lemma empty_thread_started:
  "run_started configured empty_thread_request (happy run_prelude []) =
     Some (JStr (ustr ''thread_1''), JStr (ustr ''run_1''), happy run_prelude prelude_events)"
  by (simp add: run_started_def configured_def empty_thread_request_def happy_def
        prelude_events_def run_prelude_def script_def with_json_def thenS_def
        resolve_thread_def add_message_def start_run_def fetch_def fetches_def ok_def own_def
        ustr_eq_iff ustr_Nil_iff Let_def)

lemma reuse_started:
  "run_started configured reuse_request (happy (tl run_prelude) []) =
     Some (JStr (ustr ''thread_9''), JStr (ustr ''run_1''), happy (tl run_prelude) reuse_events)"
  by (simp add: run_started_def configured_def reuse_request_def happy_def
        reuse_events_def run_prelude_def script_def with_json_def thenS_def
        resolve_thread_def add_message_def start_run_def fetch_def fetches_def ok_def own_def
        ustr_eq_iff ustr_Nil_iff Let_def)

lemma prelude_fetches: "fetches prelude_events = length run_prelude"
  "fetches reuse_events = length (tl run_prelude)"
  by (simp_all add: prelude_events_def reuse_events_def run_prelude_def fetches_def)

text \<open>
  Claim C6, as stated, fails for a request that supplies the empty string as
  \<open>threadId\<close>: the handler issues a \<open>create thread\<close> call and the reply carries the
  identifier of the new thread, not the supplied one.
\<close>

theorem empty_threadId_creates_thread:
  "get_prop empty_thread_request (ustr ''threadId'') = Inr (JStr [])
   \<and> create_calls (effects (happy run_prelude [])
        (snd (chat_b configured empty_thread_request (happy run_prelude [])))) = 1
   \<and> threadId_of (payload (fst (chat_b configured empty_thread_request (happy run_prelude []))))
       = Some (JStr (ustr ''thread_1''))
   \<and> JStr (ustr ''thread_1'') \<noteq> JStr []"
proof -
  have tid: "get_prop empty_thread_request (ustr ''threadId'') = Inr (JStr [])"
    and msg: "get_prop empty_thread_request (ustr ''message'') = Inr (JStr (ustr ''hi''))"
    by (simp_all add: empty_thread_request_def own_def ustr_eq_iff)
  have "\<exists>evs. effects (happy run_prelude [])
          (snd (chat_b configured empty_thread_request (happy run_prelude []))) =
        Fetch CreateThread (upstream (happy run_prelude []) (fetches (trace (happy run_prelude []))))
          # evs \<and> create_calls evs = 0"
    using fresh_thread [OF msg _ tid, of configured "ustr ''asst_1''" "happy run_prelude []"]
    by (simp add: configured_def ustr_Nil_iff)
  then have "create_calls (effects (happy run_prelude [])
        (snd (chat_b configured empty_thread_request (happy run_prelude [])))) = 1"
    by (auto simp: create_calls_def)
  then show ?thesis
    using tid happy_reply [OF empty_thread_started prelude_fetches(1)]
    by (simp add: ustr_Nil_iff)
qed

theorem thread_reused_when_truthy_created_when_absent_witness:
  "get_prop reuse_request (ustr ''message'') = Inr (JStr (ustr ''hi''))
   \<and> get_prop reuse_request (ustr ''threadId'') = Inr (JStr (ustr ''thread_9''))
   \<and> truthy (JStr (ustr ''thread_9''))
   \<and> assistant_id configured = Some (ustr ''asst_1'')
   \<and> create_calls (effects (happy (tl run_prelude) [])
        (snd (chat_b configured reuse_request (happy (tl run_prelude) [])))) = 0
   \<and> threadId_of (payload (fst (chat_b configured reuse_request (happy (tl run_prelude) []))))
       = Some (JStr (ustr ''thread_9''))
   \<and> get_prop hi_request (ustr ''threadId'') = Inr JUndefined
   \<and> create_calls (effects (happy run_prelude [])
        (snd (chat_b configured hi_request (happy run_prelude [])))) = 1
   \<and> threadId_of (payload (fst (chat_b configured hi_request (happy run_prelude []))))
       = Some (JStr (ustr ''thread_1''))
   \<and> upstream (happy run_prelude []) (fetches (trace (happy run_prelude []))) =
       with_json (JObj [(ustr ''id'', JStr (ustr ''thread_1''))])"
proof -
  have r: "get_prop reuse_request (ustr ''message'') = Inr (JStr (ustr ''hi''))"
      "get_prop reuse_request (ustr ''threadId'') = Inr (JStr (ustr ''thread_9''))"
    by (simp_all add: reuse_request_def own_def ustr_eq_iff)
  have h: "get_prop hi_request (ustr ''message'') = Inr (JStr (ustr ''hi''))"
      "get_prop hi_request (ustr ''threadId'') = Inr JUndefined"
    by (simp_all add: hi_request_def own_def ustr_eq_iff)
  have c: "assistant_id configured = Some (ustr ''asst_1'')" "ustr ''asst_1'' \<noteq> []"
      "ustr ''hi'' \<noteq> []" "truthy (JStr (ustr ''thread_9''))"
    by (simp_all add: configured_def ustr_Nil_iff)
  have up: "upstream (happy run_prelude []) (fetches (trace (happy run_prelude []))) =
       with_json (JObj [(ustr ''id'', JStr (ustr ''thread_1''))])"
    by (simp add: happy_def script_def run_prelude_def fetches_def)
  show ?thesis
    using thread_reused_when_truthy_created_when_absent [OF r(1) c(3) r(2) c(1,2), of "happy (tl run_prelude) []"]
          thread_reused_when_truthy_created_when_absent [OF h(1) c(3) h(2) c(1,2), of "happy run_prelude []"]
          happy_reply [OF reuse_started prelude_fetches(2)]
          happy_reply [OF hi_started prelude_fetches(1)]
          r h c up
    by simp
qed

theorem falsy_threadId_treated_as_absent_witness:
  "get_prop empty_thread_request (ustr ''message'') = Inr (JStr (ustr ''hi''))
   \<and> get_prop empty_thread_request (ustr ''threadId'') = Inr (JStr [])
   \<and> \<not> truthy (JStr [])
   \<and> assistant_id configured = Some (ustr ''asst_1'')
   \<and> create_calls (effects (happy run_prelude [])
        (snd (chat_b configured empty_thread_request (happy run_prelude [])))) = 1
   \<and> upstream (happy run_prelude []) (fetches (trace (happy run_prelude []))) =
       with_json (JObj [(ustr ''id'', JStr (ustr ''thread_1''))])
   \<and> threadId_of (payload (fst (chat_b configured empty_thread_request (happy run_prelude []))))
       = Some (JStr (ustr ''thread_1''))"
proof -
  have e: "get_prop empty_thread_request (ustr ''message'') = Inr (JStr (ustr ''hi''))"
      "get_prop empty_thread_request (ustr ''threadId'') = Inr (JStr [])"
    by (simp_all add: empty_thread_request_def own_def ustr_eq_iff)
  have c: "assistant_id configured = Some (ustr ''asst_1'')" "ustr ''asst_1'' \<noteq> []"
      "ustr ''hi'' \<noteq> []" "\<not> truthy (JStr [])"
    by (simp_all add: configured_def ustr_Nil_iff)
  have up: "upstream (happy run_prelude []) (fetches (trace (happy run_prelude []))) =
       with_json (JObj [(ustr ''id'', JStr (ustr ''thread_1''))])"
    by (simp add: happy_def script_def run_prelude_def fetches_def)
  show ?thesis
    using falsy_threadId_treated_as_absent [OF e(1) c(3) e(2) c(1,2,4), of "happy run_prelude []"]
          happy_reply [OF empty_thread_started prelude_fetches(1)]
          e c up
    by simp
qed

section \<open>Non-success answers of the upstream\<close>

lemma cleanI:
  "trace w' = trace w @ evs \<Longrightarrow> list_all (accounted res) evs \<Longrightarrow> clean w (res, w')"
  by (simp add: clean_def effects_def)

lemma cleanD:
  "clean w (res, w') \<Longrightarrow> \<exists>evs. trace w' = trace w @ evs \<and> list_all (accounted res) evs"
  unfolding clean_def effects_def
  by (metis append_take_drop_id fst_conv snd_conv)

lemma clean_same: "clean w (res, w)"
  by (rule cleanI [of _ _ "[]"]) simp_all

lemma accounted_Inr: "list_all (accounted (Inr x)) evs \<Longrightarrow> list_all (accounted res) evs"
proof (induction evs)
  case Nil
  then show ?case by simp
next
  case (Cons e evs)
  then show ?case by (cases "(Inr x :: exn + 'a, e)" rule: accounted.cases) auto
qed

lemma clean_thenS:
  assumes "clean w m" and "\<And>x w1. m = (Inr x, w1) \<Longrightarrow> clean w1 (f x w1)"
  shows "clean w (thenS m f)"
proof (cases m)
  case (Pair res w1)
  show ?thesis
  proof (cases res)
    case (Inl e)
    then have "thenS m f = (Inl e, w1)" using Pair by (simp add: thenS_def)
    moreover have "clean w (Inl e :: exn + 'a, w1)" using assms(1) Pair Inl by simp
    then obtain evs where "trace w1 = trace w @ evs" "list_all (accounted (Inl e :: exn + 'a)) evs"
      by (blast dest: cleanD)
    moreover have "list_all (accounted (Inl e :: exn + 'b)) evs"
      using calculation(3)
    proof (induction evs)
      case Nil
      then show ?case by simp
    next
      case (Cons a evs)
      then show ?case by (cases "(Inl e :: exn + 'a, a)" rule: accounted.cases) auto
    qed
    ultimately show ?thesis by (simp add: cleanI)
  next
    case (Inr x)
    then have t: "thenS m f = f x w1" using Pair by (simp add: thenS_def)
    have "clean w (Inr x :: exn + 'a, w1)" using assms(1) Pair Inr by simp
    then obtain evs1 where e1: "trace w1 = trace w @ evs1" "list_all (accounted (Inr x :: exn + 'a)) evs1"
      by (blast dest: cleanD)
    obtain res2 w2 where f: "f x w1 = (res2, w2)" by (cases "f x w1")
    then have "clean w1 (res2, w2)" using assms(2) [of x w1] Pair Inr by simp
    then obtain evs2 where e2: "trace w2 = trace w1 @ evs2" "list_all (accounted res2) evs2"
      by (blast dest: cleanD)
    have "list_all (accounted res2) (evs1 @ evs2)"
      using accounted_Inr [OF e1(2), of res2] e2(2) by simp
    then show ?thesis using t f e1(1) e2(1) by (simp add: cleanI [of _ _ "evs1 @ evs2"])
  qed
qed

lemma clean_fetch:
  assumes "fetch rq w = (fr, w')"
    and "\<And>r. fr = Resp r \<Longrightarrow> \<not> ok r \<Longrightarrow> res = Inl (failure_of rq r)"
  shows "clean w (res, w')"
proof (rule cleanI [of _ _ "[Fetch rq fr]"])
  show "trace w' = trace w @ [Fetch rq fr]"
    using assms(1) by (auto simp: fetch_def Let_def)
  show "list_all (accounted res) [Fetch rq fr]"
    using assms(2) by (cases fr) auto
qed

lemma resolve_thread_clean: "clean w (resolve_thread threadId w)"
proof (cases "truthy threadId")
  case True
  then show ?thesis by (simp add: resolve_thread_def clean_same)
next
  case False
  obtain fr w1 where f: "fetch CreateThread w = (fr, w1)" by (cases "fetch CreateThread w")
  have "resolve_thread threadId w = (fst (resolve_thread threadId w), w1)"
    using False f by (auto simp: resolve_thread_def split: fetch_result.splits option.splits)
  moreover have "clean w (fst (resolve_thread threadId w), w1)"
    using f False
    by (intro clean_fetch [OF f]) (auto simp: resolve_thread_def failure_of_def)
  ultimately show ?thesis by simp
qed

lemma add_message_clean: "clean w (add_message cur message w)"
proof (cases "to_string cur")
  case (Inl e)
  then show ?thesis by (simp add: add_message_def clean_same)
next
  case (Inr t)
  obtain fr w1 where f: "fetch (AddMessage t message) w = (fr, w1)"
    by (cases "fetch (AddMessage t message) w")
  have "add_message cur message w = (fst (add_message cur message w), w1)"
    using Inr f by (auto simp: add_message_def split: fetch_result.splits option.splits)
  moreover have "clean w (fst (add_message cur message w), w1)"
    using f Inr
    by (intro clean_fetch [OF f])
       (auto simp: add_message_def failure_of_def split: option.splits)
  ultimately show ?thesis by simp
qed

lemma start_run_clean: "clean w (start_run aid cur w)"
proof (cases "to_string cur")
  case (Inl e)
  then show ?thesis by (simp add: start_run_def clean_same)
next
  case (Inr t)
  obtain fr w1 where f: "fetch (CreateRun t aid) w = (fr, w1)"
    by (cases "fetch (CreateRun t aid) w")
  have "start_run aid cur w = (fst (start_run aid cur w), w1)"
    using Inr f by (auto simp: start_run_def split: fetch_result.splits option.splits)
  moreover have "clean w (fst (start_run aid cur w), w1)"
    using f Inr
    by (intro clean_fetch [OF f])
       (auto simp: start_run_def failure_of_def split: option.splits)
  ultimately show ?thesis by simp
qed

lemma fetch_messages_clean: "clean w (fetch_messages cur w)"
proof (cases "to_string cur")
  case (Inl e)
  then show ?thesis by (simp add: fetch_messages_def clean_same)
next
  case (Inr t)
  obtain fr w1 where f: "fetch (ListMessages t) w = (fr, w1)"
    by (cases "fetch (ListMessages t) w")
  have "fetch_messages cur w = (fst (fetch_messages cur w), w1)"
    using Inr f by (auto simp: fetch_messages_def split: fetch_result.splits option.splits)
  moreover have "clean w (fst (fetch_messages cur w), w1)"
    using f Inr
    by (intro clean_fetch [OF f])
       (auto simp: fetch_messages_def failure_of_def split: option.splits)
  ultimately show ?thesis by simp
qed

lemma accounted_Inl:
  "list_all (accounted (Inl e :: exn + 'a)) evs \<Longrightarrow> list_all (accounted (Inl e :: exn + 'b)) evs"
proof (induction evs)
  case Nil
  then show ?case by simp
next
  case (Cons a evs)
  then show ?case by (cases "(Inl e :: exn + 'a, a)" rule: accounted.cases) auto
qed

lemma poll_clean: "clean w (poll tid rid runStatus attempts w)"
proof (induction "maxAttempts - attempts" arbitrary: runStatus attempts w)
  case 0
  then have "poll tid rid runStatus attempts w = (Inr runStatus, w)"
    by (intro poll_exit) simp
  then show ?case by (simp add: clean_same)
next
  case (Suc d)
  show ?case
  proof (cases "runStatus = JStr (ustr ''completed'') \<or> runStatus = JStr (ustr ''failed'')")
    case True
    then have "poll tid rid runStatus attempts w = (Inr runStatus, w)"
      by (intro poll_exit) blast
    then show ?thesis by (simp add: clean_same)
  next
    case False
    then have c: "runStatus \<noteq> JStr (ustr ''completed'')" "runStatus \<noteq> JStr (ustr ''failed'')"
        "attempts < maxAttempts"
      using Suc.hyps(2) by auto
    from c show ?thesis
    proof (cases rule: poll_step_cases [where tid = tid and rid = rid and w = w])
      case (template e)
      have "clean w (Inl e :: exn + js, sleep 1000 w)"
        by (rule cleanI [of _ _ "[Sleep 1000]"]) (simp_all add: sleep_def)
      then show ?thesis using template(1) by simp
    next
      case (stop t r e)
      have "clean w (Inl e :: exn + js, after_polls (GetRun t r) (Suc 0) w)"
      proof (rule cleanI [of _ _ "polls (GetRun t r) (upstream w) (fetches (trace w)) (Suc 0)"])
        show "list_all (accounted (Inl e :: exn + js))
                (polls (GetRun t r) (upstream w) (fetches (trace w)) (Suc 0))"
          using stop(4)
          by (cases "upstream w (fetches (trace w))")
             (auto simp: polls_Suc_front polls_0 failure_of_def)
      qed (simp add: after_polls_trace(1))
      then show ?thesis using stop(3) by simp
    next
      case (continue t r st)
      let ?w1 = "after_polls (GetRun t r) (Suc 0) w"
      obtain res w2 where p: "poll tid rid st (Suc attempts) ?w1 = (res, w2)"
        by (cases "poll tid rid st (Suc attempts) ?w1")
      have "d = maxAttempts - Suc attempts" using Suc.hyps(2) by simp
      from Suc.hyps(1) [OF this, of ?w1 st] p
      have "clean ?w1 (res, w2)" by simp
      then obtain evs where evs: "trace w2 = trace ?w1 @ evs" "list_all (accounted res) evs"
        by (blast dest: cleanD)
      have first: "list_all (accounted res)
                     (polls (GetRun t r) (upstream w) (fetches (trace w)) (Suc 0))"
        using continue(4)
        by (cases "upstream w (fetches (trace w))")
           (auto simp: polls_Suc_front polls_0 fetched_status_def split: if_splits)
      have "clean w (res, w2)"
        by (rule cleanI [of _ _ "polls (GetRun t r) (upstream w) (fetches (trace w)) (Suc 0) @ evs"])
           (simp_all add: evs first after_polls_trace(1))
      then show ?thesis using continue(3) p by simp
    qed
  qed
qed

lemma wait_clean: "clean w (wait_for_run cur rid w)"
proof -
  obtain res w1 where p: "poll cur rid (JStr (ustr ''queued'')) 0 w = (res, w1)"
    by (cases "poll cur rid (JStr (ustr ''queued'')) 0 w")
  then have "clean w (res, w1)"
    using poll_clean [of w cur rid "JStr (ustr ''queued'')" 0] by simp
  then obtain evs where evs: "trace w1 = trace w @ evs" "list_all (accounted res) evs"
    by (blast dest: cleanD)
  show ?thesis
  proof (cases res)
    case (Inl e)
    then have "wait_for_run cur rid w = (Inl e, w1)" using p by (simp add: wait_for_run_def)
    moreover have "list_all (accounted (Inl e :: exn + js)) evs"
      using evs(2) Inl by simp
    then have "list_all (accounted (Inl e :: exn + unit)) evs"
      by (rule accounted_Inl)
    ultimately show ?thesis using evs(1) by (simp add: cleanI)
  next
    case (Inr st)
    then have "snd (wait_for_run cur rid w) = w1" using p by (simp add: wait_world)
    moreover have "list_all (accounted (Inr st :: exn + js)) evs"
      using evs(2) Inr by simp
    then have "list_all (accounted (fst (wait_for_run cur rid w))) evs"
      by (rule accounted_Inr)
    ultimately show ?thesis
      using evs(1) cleanI [of w1 w evs "fst (wait_for_run cur rid w)"]
      by (cases "wait_for_run cur rid w") simp
  qed
qed

lemma chat_b_try_clean: "clean w (chat_b_try cfg body w)"
proof -
  have pipeline: "clean w
     (thenS (resolve_thread threadId w) (\<lambda>currentThreadId w1.
      thenS (add_message currentThreadId message w1) (\<lambda>u w2.
      thenS (start_run aid currentThreadId w2) (\<lambda>runId w3.
      thenS (wait_for_run currentThreadId runId w3) (\<lambda>u w4.
      thenS (fetch_messages currentThreadId w4) (\<lambda>assistantMessage w5.
      (andThen (response_text assistantMessage) (\<lambda>responseText.
       Inr (Reply 200 (ChatB responseText currentThreadId runId))), w5)))))))"
    for threadId message aid
    by (intro clean_thenS resolve_thread_clean add_message_clean start_run_clean wait_clean
          fetch_messages_clean clean_same)
  show ?thesis
    unfolding chat_b_try_def
    by (simp add: clean_same pipeline split: sum.splits option.splits prod.splits)
qed

text \<open>
  Claim C1, amended. Variant A: when the completion call is answered with a non-success
  status and a JSON body other than \<open>null\<close>, the reply has the status code of the
  upstream and the body \<open>{error: 'Error from OpenAI API', details}\<close>, where
  \<open>details\<close> is the upstream's \<open>error.message\<close> when that is truthy and
  \<open>Unknown error\<close> otherwise. Variant B: when any call of the handler is answered with a
  non-success status, the reply has status 500 and the body of the catch-all boundary with
  the failure of that step as message, and no \<open>details\<close> field.
\<close>

theorem upstream_failure_replies:
  "(Fetch rq (Resp r) \<in> set (effects w (snd (chat_a body w))) \<and> \<not> ok r \<and> json r = Some d
      \<and> d \<noteq> JUndefined \<and> d \<noteq> JNull
    \<longrightarrow> fst (chat_a body w) =
          Reply (status r)
            (ErrorDetails (ustr ''Error from OpenAI API'')
               (js_or (opt_prop (opt_prop d (ustr ''error'')) (ustr ''message''))
                      (JStr (ustr ''Unknown error'')))))
   \<and> (Fetch rq' (Resp r') \<in> set (effects w' (snd (chat_b cfg body' w'))) \<and> \<not> ok r'
    \<longrightarrow> fst (chat_b cfg body' w') = Reply 500 (Caught (failure_of rq' r'))
        \<and> details (payload (fst (chat_b cfg body' w'))) = None)"
proof (intro conjI impI)
  assume a: "Fetch rq (Resp r) \<in> set (effects w (snd (chat_a body w))) \<and> \<not> ok r
      \<and> json r = Some d \<and> d \<noteq> JUndefined \<and> d \<noteq> JNull"
  have "get_prop d (ustr ''error'') = Inr (opt_prop d (ustr ''error''))"
    using a by (cases d) auto
  then show "fst (chat_a body w) =
          Reply (status r)
            (ErrorDetails (ustr ''Error from OpenAI API'')
               (js_or (opt_prop (opt_prop d (ustr ''error'')) (ustr ''message''))
                      (JStr (ustr ''Unknown error''))))"
    using a
    by (auto simp: chat_a_def chat_a_try_def completion_reply_def andThen_def fetch_def Let_def
          effects_def split: sum.splits fetch_result.splits if_splits prod.splits)
next
  assume b: "Fetch rq' (Resp r') \<in> set (effects w' (snd (chat_b cfg body' w'))) \<and> \<not> ok r'"
  obtain res w1 where t: "chat_b_try cfg body' w' = (res, w1)"
    by (cases "chat_b_try cfg body' w'")
  then have w1: "snd (chat_b cfg body' w') = w1"
    by (simp add: chat_b_def split: sum.splits)
  have "list_all (accounted res) (effects w' w1)"
    using chat_b_try_clean [of w' cfg body'] t by (simp add: clean_def)
  then have "accounted res (Fetch rq' (Resp r'))"
    using b w1 by (auto simp: list_all_iff)
  then have "res = Inl (failure_of rq' r')" using b by simp
  then have "fst (chat_b cfg body' w') = Reply 500 (Caught (failure_of rq' r'))"
    using t by (simp add: chat_b_def)
  then show "fst (chat_b cfg body' w') = Reply 500 (Caught (failure_of rq' r'))"
    and "details (payload (fst (chat_b cfg body' w'))) = None"
    by simp_all
qed

text \<open>
  Claim C1, as stated, fails in both servers. When the upstream answers 401 with an error
  message, variant A replies with status 401, not 500; variant B replies with status 500
  but its body has no \<open>details\<close> field and its message is the fixed text of the step.
\<close>

theorem upstream_failure_not_500_with_details:
  "effects unauthorized (snd (chat_a hi_request unauthorized)) =
     [Fetch (ChatCompletion [system_entry, user_entry (ustr ''hi'')]) (Resp denied)]
   \<and> \<not> ok denied
   \<and> fst (chat_a hi_request unauthorized) =
       Reply 401 (ErrorDetails (ustr ''Error from OpenAI API'') (JStr (ustr ''Incorrect API key'')))
   \<and> effects unauthorized (snd (chat_b configured hi_request unauthorized)) =
       [Fetch CreateThread (Resp denied)]
   \<and> fst (chat_b configured hi_request unauthorized) =
       Reply 500 (Caught (Error (ustr ''Failed to create thread'')))
   \<and> details (payload (fst (chat_b configured hi_request unauthorized))) = None"
  by (simp add: chat_a_def chat_a_try_def completion_reply_def andThen_def fetch_def Let_def
        effects_def unauthorized_def denied_def hi_request_def own_def ustr_eq_iff ustr_Nil_iff
        build_messages_def js_or_def user_entry_def fetches_def ok_def chat_b_def
        chat_b_try_def configured_def thenS_def resolve_thread_def)

theorem upstream_failure_replies_witness:
  "Fetch (ChatCompletion [system_entry, user_entry (ustr ''hi'')]) (Resp denied)
     \<in> set (effects unauthorized (snd (chat_a hi_request unauthorized)))
   \<and> \<not> ok denied
   \<and> json denied = Some (JObj [(ustr ''error'',
                          JObj [(ustr ''message'', JStr (ustr ''Incorrect API key''))])])
   \<and> fst (chat_a hi_request unauthorized) =
       Reply 401 (ErrorDetails (ustr ''Error from OpenAI API'') (JStr (ustr ''Incorrect API key'')))
   \<and> Fetch CreateThread (Resp denied)
     \<in> set (effects unauthorized (snd (chat_b configured hi_request unauthorized)))
   \<and> fst (chat_b configured hi_request unauthorized) =
       Reply 500 (Caught (Error (ustr ''Failed to create thread'')))
   \<and> details (payload (fst (chat_b configured hi_request unauthorized))) = None"
proof -
  have a: "Fetch (ChatCompletion [system_entry, user_entry (ustr ''hi'')]) (Resp denied)
     \<in> set (effects unauthorized (snd (chat_a hi_request unauthorized)))"
    by (simp add: chat_a_def chat_a_try_def andThen_def fetch_def Let_def
          effects_def unauthorized_def hi_request_def own_def ustr_eq_iff ustr_Nil_iff
          build_messages_def js_or_def user_entry_def split: sum.splits)
  have b: "Fetch CreateThread (Resp denied)
     \<in> set (effects unauthorized (snd (chat_b configured hi_request unauthorized)))"
    by (simp add: chat_b_def chat_b_try_def andThen_def fetch_def Let_def thenS_def
          effects_def unauthorized_def hi_request_def own_def ustr_eq_iff ustr_Nil_iff
          configured_def resolve_thread_def denied_def ok_def)
  have d: "\<not> ok denied"
    "json denied = Some (JObj [(ustr ''error'',
                          JObj [(ustr ''message'', JStr (ustr ''Incorrect API key''))])])"
    "status denied = 401"
    by (simp_all add: denied_def ok_def)
  show ?thesis
    using upstream_failure_replies [of "ChatCompletion [system_entry, user_entry (ustr ''hi'')]" denied unauthorized
                hi_request
                "JObj [(ustr ''error'', JObj [(ustr ''message'', JStr (ustr ''Incorrect API key''))])]"
                CreateThread denied unauthorized configured hi_request]
          a b d
    by (simp add: own_def ustr_eq_iff ustr_Nil_iff js_or_def failure_of_def)
qed

end
